theory Spec2Isabelle
  imports Main "HOL-Library.Word"
begin

unbundle bit_operations_syntax

section \<open>Win32 types and constants\<close>

text \<open>
  The model follows \<^verbatim>\<open>src/env.cpp\<close>. A \<^verbatim>\<open>DWORD\<close> is a 32-bit word, a
  \<^verbatim>\<open>HANDLE\<close> and a \<^verbatim>\<open>std::size_t\<close> are 64-bit words, a \<^verbatim>\<open>std::wstring\<close> is a
  list of characters (of 8 bits here, where \<^verbatim>\<open>wchar_t\<close> has 16: no property below
  depends on a character outside ASCII). The numeric constants are those of the Windows
  SDK headers.
\<close>

type_synonym DWORD = "32 word"
type_synonym HANDLE = "64 word"
type_synonym size_t = "64 word"
type_synonym wstring = string

definition INVALID_HANDLE_VALUE :: HANDLE where
  "INVALID_HANDLE_VALUE = - 1"

definition MAX_PATH :: DWORD where
  "MAX_PATH = 260"

definition ERROR_ACCESS_DENIED :: DWORD where
  "ERROR_ACCESS_DENIED = 5"

definition ERROR_FILE_EXISTS :: DWORD where
  "ERROR_FILE_EXISTS = 80"

definition MiniDumpNormal :: DWORD where
  "MiniDumpNormal = 0x0"

definition MiniDumpWithDataSegs :: DWORD where
  "MiniDumpWithDataSegs = 0x1"

definition MiniDumpWithFullMemory :: DWORD where
  "MiniDumpWithFullMemory = 0x2"

definition MiniDumpWithHandleData :: DWORD where
  "MiniDumpWithHandleData = 0x4"

definition MiniDumpWithUnloadedModules :: DWORD where
  "MiniDumpWithUnloadedModules = 0x20"

definition MiniDumpWithProcessThreadData :: DWORD where
  "MiniDumpWithProcessThreadData = 0x100"

text \<open>The broken-down UTC time that \<^verbatim>\<open>std::gmtime\<close> returns (the fields the code reads).\<close>

record tm =
  tm_year :: int
  tm_mon :: int
  tm_mday :: int
  tm_hour :: int
  tm_min :: int
  tm_sec :: int

text \<open>\<^verbatim>\<open>struct Process\<close>, lines 113-122.\<close>

record Process =
  filename :: wstring
  pid :: DWORD

text \<open>\<^verbatim>\<open>enum class CoreDumpTypes\<close>; the enumeration is declared in \<^verbatim>\<open>env.h\<close>, its three
  values are the ones \<^verbatim>\<open>createMiniDump\<close> distinguishes.\<close>

datatype CoreDumpTypes = Mini | Data | Full

section \<open>The operating system as an environment\<close>

text \<open>
  Every call the code makes into Win32 or the C library is recorded, with its arguments
  and what it returned, in the order the calls happen.
\<close>

datatype call =
    GetCurrentProcessId_call DWORD
  | GetModuleFileNameW_call DWORD DWORD
  | GetModuleBaseNameW_call HANDLE DWORD DWORD
  | GetLastError_call DWORD
  | EnumProcesses_call DWORD bool DWORD
  | OpenProcess_call DWORD HANDLE
  | GetTempPathW_call DWORD DWORD
  | gmtime_call tm
  | CreateFileW_call wstring HANDLE
  | GetProcessId_call HANDLE DWORD
  | GetCurrentProcess_call HANDLE
  | MiniDumpWriteDump_call HANDLE DWORD HANDLE DWORD bool

text \<open>
  The environment answers each call as a function of the calls made so far and of the
  call's arguments, so that its answers may change from one call to the next. The
  functions that fill a buffer return the characters or identifiers they have to offer
  together with their return value.

  Two parts of the environment are not Win32: \<open>path_filename\<close> is
  \<^verbatim>\<open>std::filesystem::path::filename\<close>, and \<open>HandlePtr_empty\<close> is the handle a
  default-constructed \<^verbatim>\<open>HandlePtr\<close> holds (what \<^verbatim>\<open>return {}\<close> returns, and what
  \<^verbatim>\<open>!h\<close> compares \<^verbatim>\<open>h.get()\<close> with). \<^verbatim>\<open>HandlePtr\<close> is declared in \<^verbatim>\<open>env.h\<close>, a
  \<^verbatim>\<open>std::unique_ptr\<close> over \<^verbatim>\<open>HANDLE\<close>, for which that handle is the null handle 0.
\<close>

record win32 =
  GetCurrentProcessId :: "call list \<Rightarrow> DWORD"
  GetModuleFileNameW :: "call list \<Rightarrow> DWORD \<Rightarrow> DWORD \<times> wstring"
  GetModuleBaseNameW :: "call list \<Rightarrow> HANDLE \<Rightarrow> DWORD \<Rightarrow> DWORD \<times> wstring"
  GetLastError :: "call list \<Rightarrow> DWORD"
  EnumProcesses :: "call list \<Rightarrow> DWORD \<Rightarrow> bool \<times> DWORD list"
  OpenProcess :: "call list \<Rightarrow> DWORD \<Rightarrow> HANDLE"
  GetTempPathW :: "call list \<Rightarrow> DWORD \<Rightarrow> DWORD \<times> wstring"
  gmtime_now :: "call list \<Rightarrow> tm"
  CreateFileW :: "call list \<Rightarrow> wstring \<Rightarrow> HANDLE"
  GetProcessId :: "call list \<Rightarrow> HANDLE \<Rightarrow> DWORD"
  GetCurrentProcess :: "call list \<Rightarrow> HANDLE"
  MiniDumpWriteDump :: "call list \<Rightarrow> HANDLE \<Rightarrow> DWORD \<Rightarrow> HANDLE \<Rightarrow> DWORD \<Rightarrow> bool"
  path_filename :: "wstring \<Rightarrow> wstring"
  HandlePtr_empty :: HANDLE

text \<open>
  What the code writes to its diagnostic streams, one constructor for each output
  statement of the source, with the values the statement prints. Line 217 sends the wide
  string literal \<^verbatim>\<open>L"too many processes to enumerate"\<close> to the narrow stream
  \<^verbatim>\<open>std::cerr\<close>, which prints the address of the literal and none of its characters:
  that output is \<open>AddressOfTooManyProcessesToEnumerate\<close>.
\<close>

datatype msg =
    SystemMessage DWORD
  | FailedToGetFilenameForCurrentProcess
  | FailedToGetFilenameForPid HANDLE
  | FailedToEnumerateProcesses DWORD
  | AddressOfTooManyProcessesToEnumerate
  | FailedToOpenProcess DWORD DWORD
  | LookingForTheOtherProcess
  | ThisProcessIdIs DWORD
  | CantGetCurrentProcessFilename wstring
  | ThisProcessFilenameIs wstring
  | ThereAreProcessesRunning nat
  | NoProcessWithThisFilename
  | FailedToGetTempPath DWORD
  | TryingFile wstring
  | FailedToCreateDumpFile DWORD
  | RanOutOfFilenames
  | CannotWriteDumpFileInCurrentDirectory
  | NowhereToWriteTheDumpFile
  | WritingMinidumpWithData
  | WritingFullMinidump
  | WritingMiniMinidump
  | FailedToWriteMiniDump DWORD
  | MinidumpWrittenCorrectly
  | CreatingMinidumpForTheCurrentProcess
  | CreatingMinidumpForARunningProcess
  | NoOtherProcessFound
  | FoundOtherProcessWithPid DWORD

text \<open>
  The state the functions thread: the calls made so far and the three streams the code
  writes to, the wide \<^verbatim>\<open>std::wcerr\<close> and \<^verbatim>\<open>std::wclog\<close> and the narrow \<^verbatim>\<open>std::cerr\<close>.
  The \<^verbatim>\<open>CloseHandle\<close> of a \<^verbatim>\<open>HandlePtr\<close> that goes out of scope is not recorded.
\<close>

record state =
  calls :: "call list"
  wcerr :: "msg list"
  wclog :: "msg list"
  cerr :: "msg list"

definition record_call :: "call \<Rightarrow> state \<Rightarrow> state" where
  "record_call c s = s\<lparr>calls := calls s @ [c]\<rparr>"

definition to_wcerr :: "msg \<Rightarrow> state \<Rightarrow> state" where
  "to_wcerr m s = s\<lparr>wcerr := wcerr s @ [m]\<rparr>"

definition to_wclog :: "msg \<Rightarrow> state \<Rightarrow> state" where
  "to_wclog m s = s\<lparr>wclog := wclog s @ [m]\<rparr>"

definition to_cerr :: "msg \<Rightarrow> state \<Rightarrow> state" where
  "to_cerr m s = s\<lparr>cerr := cerr s @ [m]\<rparr>"

text \<open>
  An array of \<open>n\<close> elements, filled with \<open>z\<close> by the code and then written from its
  start by the system with \<open>xs\<close>.
\<close>

definition filled :: "nat \<Rightarrow> 'a \<Rightarrow> 'a list \<Rightarrow> 'a list" where
  "filled n z xs = take n xs @ replicate (n - length xs) z"

definition call_GetCurrentProcessId :: "win32 \<Rightarrow> state \<Rightarrow> DWORD \<times> state" where
  "call_GetCurrentProcessId os s =
     (let r = GetCurrentProcessId os (calls s)
      in (r, record_call (GetCurrentProcessId_call r) s))"

definition call_GetModuleFileNameW ::
  "win32 \<Rightarrow> DWORD \<Rightarrow> state \<Rightarrow> (DWORD \<times> wstring) \<times> state" where
  "call_GetModuleFileNameW os nSize s =
     (let (r, chars) = GetModuleFileNameW os (calls s) nSize
      in ((r, chars), record_call (GetModuleFileNameW_call nSize r) s))"

definition call_GetModuleBaseNameW ::
  "win32 \<Rightarrow> HANDLE \<Rightarrow> DWORD \<Rightarrow> state \<Rightarrow> (DWORD \<times> wstring) \<times> state" where
  "call_GetModuleBaseNameW os process nSize s =
     (let (r, chars) = GetModuleBaseNameW os (calls s) process nSize
      in ((r, chars), record_call (GetModuleBaseNameW_call process nSize r) s))"

definition call_GetLastError :: "win32 \<Rightarrow> state \<Rightarrow> DWORD \<times> state" where
  "call_GetLastError os s =
     (let e = GetLastError os (calls s)
      in (e, record_call (GetLastError_call e) s))"

text \<open>
  \<^verbatim>\<open>EnumProcesses(ids, cb, &bytesWritten)\<close>, as Win32 documents it: on success it stores
  as many identifiers as fit into the \<open>cb\<close> bytes of the array and the number of bytes
  it stored into \<^verbatim>\<open>bytesWritten\<close>; on failure it leaves both alone (the code has filled
  the array of \<open>n\<close> elements with 0 and set \<^verbatim>\<open>bytesWritten\<close> to 0). The result is
  the return value, the array after the call and \<^verbatim>\<open>bytesWritten\<close>.
\<close>

definition call_EnumProcesses ::
  "win32 \<Rightarrow> nat \<Rightarrow> DWORD \<Rightarrow> state \<Rightarrow> (bool \<times> DWORD list \<times> DWORD) \<times> state" where
  "call_EnumProcesses os n cb s =
     (let (ok, offered) = EnumProcesses os (calls s) cb;
          stored = (if ok then take (unat cb div 4) offered else []);
          bytesWritten = 4 * word_of_nat (length stored)
      in ((ok, filled n 0 stored, bytesWritten),
          record_call (EnumProcesses_call cb ok bytesWritten) s))"

definition call_OpenProcess :: "win32 \<Rightarrow> DWORD \<Rightarrow> state \<Rightarrow> HANDLE \<times> state" where
  "call_OpenProcess os dwProcessId s =
     (let h = OpenProcess os (calls s) dwProcessId
      in (h, record_call (OpenProcess_call dwProcessId h) s))"

definition call_GetTempPathW ::
  "win32 \<Rightarrow> DWORD \<Rightarrow> state \<Rightarrow> (DWORD \<times> wstring) \<times> state" where
  "call_GetTempPathW os nSize s =
     (let (r, chars) = GetTempPathW os (calls s) nSize
      in ((r, chars), record_call (GetTempPathW_call nSize r) s))"

definition call_gmtime :: "win32 \<Rightarrow> state \<Rightarrow> tm \<times> state" where
  "call_gmtime os s =
     (let t = gmtime_now os (calls s)
      in (t, record_call (gmtime_call t) s))"

definition call_CreateFileW :: "win32 \<Rightarrow> wstring \<Rightarrow> state \<Rightarrow> HANDLE \<times> state" where
  "call_CreateFileW os path s =
     (let h = CreateFileW os (calls s) path
      in (h, record_call (CreateFileW_call path h) s))"

definition call_GetProcessId :: "win32 \<Rightarrow> HANDLE \<Rightarrow> state \<Rightarrow> DWORD \<times> state" where
  "call_GetProcessId os process s =
     (let r = GetProcessId os (calls s) process
      in (r, record_call (GetProcessId_call process r) s))"

definition call_GetCurrentProcess :: "win32 \<Rightarrow> state \<Rightarrow> HANDLE \<times> state" where
  "call_GetCurrentProcess os s =
     (let h = GetCurrentProcess os (calls s)
      in (h, record_call (GetCurrentProcess_call h) s))"

definition call_MiniDumpWriteDump ::
  "win32 \<Rightarrow> HANDLE \<Rightarrow> DWORD \<Rightarrow> HANDLE \<Rightarrow> DWORD \<Rightarrow> state \<Rightarrow> bool \<times> state" where
  "call_MiniDumpWriteDump os process dwProcessId file flags s =
     (let ret = MiniDumpWriteDump os (calls s) process dwProcessId file flags
      in (ret, record_call (MiniDumpWriteDump_call process dwProcessId file flags ret) s))"

section \<open>Process Directory\<close>

subsection \<open>\<^verbatim>\<open>processFilename\<close>, lines 127-178\<close>

definition processFilename_MaxTries :: nat where
  "processFilename_MaxTries = 10"

text \<open>
  The \<^verbatim>\<open>for\<close> loop of lines 134-165. \<open>Some name\<close> is the \<^verbatim>\<open>return\<close> of line 163,
  \<open>None\<close> is leaving the loop, by the \<^verbatim>\<open>break\<close> of line 153 or because \<open>tries\<close>
  reached \<^verbatim>\<open>MaxTries\<close>. The buffer has \<open>bufferSize + 1\<close> characters, all 0 before the
  call.
\<close>

function processFilename_loop ::
  "win32 \<Rightarrow> HANDLE \<Rightarrow> nat \<Rightarrow> DWORD \<Rightarrow> state \<Rightarrow> wstring option \<times> state" where
  "processFilename_loop os process tries bufferSize s =
     (if tries < processFilename_MaxTries then
        (let ((writtenSize, chars), s1) =
               (if process = INVALID_HANDLE_VALUE
                then call_GetModuleFileNameW os bufferSize s
                else call_GetModuleBaseNameW os process bufferSize s);
             buffer = filled (unat bufferSize + 1) (CHR 0x00) chars
         in if writtenSize = 0 then
              (let (e, s2) = call_GetLastError os s1
               in (None, to_wcerr (SystemMessage e) s2))
            else if writtenSize \<ge> bufferSize then
              processFilename_loop os process (tries + 1) (bufferSize * 2) s1
            else
              (Some (path_filename os (take (unat writtenSize) buffer)), s1))
      else (None, s))"
  by pat_completeness auto
termination
  by (relation "measure (\<lambda>(os, process, tries, bufferSize, s). processFilename_MaxTries - tries)")
     auto

declare processFilename_loop.simps [simp del]

definition processFilename :: "win32 \<Rightarrow> HANDLE \<Rightarrow> state \<Rightarrow> wstring \<times> state" where
  "processFilename os process s =
     (case processFilename_loop os process 0 MAX_PATH s of
        (Some name, s1) \<Rightarrow> (name, s1)
      | (None, s1) \<Rightarrow>
          (let what = (if process = INVALID_HANDLE_VALUE
                       then FailedToGetFilenameForCurrentProcess
                       else FailedToGetFilenameForPid process)
           in ([], to_wcerr what s1)))"

subsection \<open>\<^verbatim>\<open>runningProcessesIds\<close>, lines 180-219\<close>

definition runningProcessesIds_MaxTries :: nat where
  "runningProcessesIds_MaxTries = 10"

text \<open>
  The loop of lines 188-215; when \<open>tries\<close> reaches \<^verbatim>\<open>MaxTries\<close> it falls through to
  lines 217-218, which write to \<^verbatim>\<open>std::cerr\<close> and not to \<^verbatim>\<open>std::wcerr\<close>.
  \<^verbatim>\<open>sizeof(ids[0])\<close> is 4; \<open>size'\<close> is the source's \<^verbatim>\<open>size\<close>.
\<close>

function runningProcessesIds_loop ::
  "win32 \<Rightarrow> nat \<Rightarrow> size_t \<Rightarrow> state \<Rightarrow> DWORD list \<times> state" where
  "runningProcessesIds_loop os tries size' s =
     (if tries < runningProcessesIds_MaxTries then
        (let bytesGiven = (ucast (size' * 4) :: DWORD);
             ((ok, ids, bytesWritten), s1) = call_EnumProcesses os (unat size') bytesGiven s
         in if \<not> ok then
              (let (e, s2) = call_GetLastError os s1
               in ([], to_wcerr (FailedToEnumerateProcesses e) s2))
            else if bytesWritten = bytesGiven then
              runningProcessesIds_loop os (tries + 1) (size' * 2) s1
            else
              (let count = (ucast bytesWritten :: size_t) div 4
               in (take (unat count) ids, s1)))
      else ([], to_cerr AddressOfTooManyProcessesToEnumerate s))"
  by pat_completeness auto
termination
  by (relation "measure (\<lambda>(os, tries, size', s). runningProcessesIds_MaxTries - tries)") auto

declare runningProcessesIds_loop.simps [simp del]

definition runningProcessesIds :: "win32 \<Rightarrow> state \<Rightarrow> DWORD list \<times> state" where
  "runningProcessesIds os s = runningProcessesIds_loop os 0 300 s"

subsection \<open>\<^verbatim>\<open>runningProcesses\<close>, lines 221-256\<close>

text \<open>
  The body of the loop of lines 226-253 for one process identifier: \<open>v\<close> is the vector
  built so far. \<^verbatim>\<open>!h\<close> holds when \<^verbatim>\<open>h\<close> holds the handle of an empty \<^verbatim>\<open>HandlePtr\<close>.
\<close>

definition runningProcesses_body ::
  "win32 \<Rightarrow> DWORD \<Rightarrow> Process list \<times> state \<Rightarrow> Process list \<times> state" where
  "runningProcesses_body os p vs =
     (let (v, s) = vs
      in if p = 0 then (v, s)
         else
           (let (h, s1) = call_OpenProcess os p s
            in if h = HandlePtr_empty os then
                 (let (e, s2) = call_GetLastError os s1
                  in if e \<noteq> ERROR_ACCESS_DENIED
                     then (v, to_wcerr (FailedToOpenProcess p e) s2)
                     else (v, s2))
               else
                 (let (name, s2) = processFilename os h s1
                  in if name \<noteq> []
                     then (v @ [\<lparr>filename = name, pid = p\<rparr>], s2)
                     else (v, s2))))"

fun runningProcesses_loop ::
  "win32 \<Rightarrow> DWORD list \<Rightarrow> Process list \<times> state \<Rightarrow> Process list \<times> state" where
  "runningProcesses_loop os [] vs = vs"
| "runningProcesses_loop os (p # pids) vs =
     runningProcesses_loop os pids (runningProcesses_body os p vs)"

definition runningProcesses :: "win32 \<Rightarrow> state \<Rightarrow> Process list \<times> state" where
  "runningProcesses os s =
     (let (pids, s1) = runningProcessesIds os s
      in runningProcesses_loop os pids ([], s1))"

section \<open>Sibling Locator: \<^verbatim>\<open>findOtherPid\<close>, lines 258-301\<close>

definition defaultName :: wstring where
  "defaultName = ''ModOrganizer.exe''"

text \<open>
  The loop of lines 287-293: \<open>Some\<close> is the \<^verbatim>\<open>return p.pid\<close> of line 290, \<open>None\<close> is
  the end of the loop. \<^verbatim>\<open>p.filename == filename\<close> is the equality of \<^verbatim>\<open>std::wstring\<close>.
\<close>

fun findOtherPid_loop :: "Process list \<Rightarrow> wstring \<Rightarrow> DWORD \<Rightarrow> DWORD option" where
  "findOtherPid_loop [] name thisPid = None"
| "findOtherPid_loop (p # processes) name thisPid =
     (if filename p = name then
        (if pid p \<noteq> thisPid then Some (pid p)
         else findOtherPid_loop processes name thisPid)
      else findOtherPid_loop processes name thisPid)"

text \<open>Lines 260-279: the identifier and the filename of this process.\<close>

definition findOtherPid_this :: "win32 \<Rightarrow> state \<Rightarrow> (DWORD \<times> wstring) \<times> state" where
  "findOtherPid_this os s =
     (let s0 = to_wclog LookingForTheOtherProcess s;
          (thisPid, s1) = call_GetCurrentProcessId os s0;
          s2 = to_wclog (ThisProcessIdIs thisPid) s1;
          (name, s3) = processFilename os INVALID_HANDLE_VALUE s2
      in if name = []
         then ((thisPid, defaultName), to_wcerr (CantGetCurrentProcessFilename defaultName) s3)
         else ((thisPid, name), to_wclog (ThisProcessFilenameIs name) s3))"

text \<open>Lines 281-300, from the identifier and filename of this process.\<close>

definition findOtherPid_search :: "win32 \<Rightarrow> DWORD \<Rightarrow> wstring \<Rightarrow> state \<Rightarrow> DWORD \<times> state" where
  "findOtherPid_search os thisPid name s =
     (let (processes, s1) = runningProcesses os s;
          s2 = to_wclog (ThereAreProcessesRunning (length processes)) s1
      in case findOtherPid_loop processes name thisPid of
           Some other \<Rightarrow> (other, s2)
         | None \<Rightarrow> (0, to_wclog NoProcessWithThisFilename s2))"

definition findOtherPid :: "win32 \<Rightarrow> state \<Rightarrow> DWORD \<times> state" where
  "findOtherPid os s =
     (let ((thisPid, name), s1) = findOtherPid_this os s
      in findOtherPid_search os thisPid name s1)"

section \<open>Dump File Allocator\<close>

subsection \<open>\<^verbatim>\<open>tempDir\<close>, lines 303-320\<close>

text \<open>
  The buffer has \<open>bufferSize + 1\<close> characters. The model reads at most the buffer; the
  code reads \<open>written\<close> characters whatever the size of the buffer is.
\<close>

definition tempDir :: "win32 \<Rightarrow> state \<Rightarrow> wstring \<times> state" where
  "tempDir os s =
     (let bufferSize = MAX_PATH + 1;
          ((written, chars), s1) = call_GetTempPathW os bufferSize s;
          buffer = filled (unat bufferSize + 1) (CHR 0x00) chars
      in if written = 0 then
           (let (e, s2) = call_GetLastError os s1
            in ([], to_wcerr (FailedToGetTempPath e) s2))
         else (take (unat written) buffer, s1))"

subsection \<open>\<^verbatim>\<open>tempFile\<close>, lines 322-377\<close>

text \<open>\<^verbatim>\<open>std::to_wstring\<close> of an \<^verbatim>\<open>int\<close>, which is also how the stream prints one.\<close>

fun digits :: "nat \<Rightarrow> string" where
  "digits n =
     (if n < 10 then [''0123456789'' ! n]
      else digits (n div 10) @ [''0123456789'' ! (n mod 10)])"

declare digits.simps [simp del]

definition to_wstring :: "int \<Rightarrow> wstring" where
  "to_wstring i = (if i < 0 then CHR ''-'' # digits (nat (- i)) else digits (nat i))"

text \<open>
  An integer printed to the stream after \<^verbatim>\<open>std::setw(w)\<close> with the fill character
  \<open>fill\<close>: padded on the left up to the width \<open>w\<close>.
\<close>

definition setw :: "nat \<Rightarrow> char \<Rightarrow> int \<Rightarrow> wstring" where
  "setw w fill i = replicate (w - length (to_wstring i)) fill @ to_wstring i"

text \<open>
  Lines 333-343. The year is printed before the first \<^verbatim>\<open>std::setfill\<close>, with the
  stream's initial fill character, the space.
\<close>

definition tempFile_prefix :: "tm \<Rightarrow> wstring" where
  "tempFile_prefix t =
     ''ModOrganizer-''
     @ setw 4 (CHR '' '') (1900 + tm_year t)
     @ setw 2 (CHR ''0'') (tm_mon t + 1)
     @ setw 2 (CHR ''0'') (tm_mday t) @ ''T''
     @ setw 2 (CHR ''0'') (tm_hour t)
     @ setw 2 (CHR ''0'') (tm_min t)
     @ setw 2 (CHR ''0'') (tm_sec t)"

definition ext :: wstring where
  "ext = ''.dmp''"

definition backslash :: wstring where
  "backslash = [CHR 0x5C]"

definition tempFile_MaxTries :: nat where
  "tempFile_MaxTries = 100"

text \<open>
  The loop of lines 349-373; when \<open>i\<close> reaches \<^verbatim>\<open>MaxTries\<close> it falls through to lines
  375-376. \<^verbatim>\<open>return {}\<close> returns an empty \<^verbatim>\<open>HandlePtr\<close>.
\<close>

function tempFile_loop ::
  "win32 \<Rightarrow> wstring \<Rightarrow> wstring \<Rightarrow> nat \<Rightarrow> wstring \<Rightarrow> state \<Rightarrow> HANDLE \<times> state" where
  "tempFile_loop os dir prefix i path s =
     (if i < tempFile_MaxTries then
        (let s0 = to_wclog (TryingFile path) s;
             (h, s1) = call_CreateFileW os path s0
         in if h \<noteq> INVALID_HANDLE_VALUE then (h, s1)
            else
              (let (e, s2) = call_GetLastError os s1
               in if e \<noteq> ERROR_FILE_EXISTS then
                    (HandlePtr_empty os, to_wcerr (FailedToCreateDumpFile e) s2)
                  else
                    tempFile_loop os dir prefix (i + 1)
                      (dir @ backslash @ prefix @ ''-'' @ to_wstring (int (i + 1)) @ ext) s2))
      else (HandlePtr_empty os, to_wcerr RanOutOfFilenames s))"
  by pat_completeness auto
termination
  by (relation "measure (\<lambda>(os, dir, prefix, i, path, s). tempFile_MaxTries - i)") auto

declare tempFile_loop.simps [simp del]

definition tempFile :: "win32 \<Rightarrow> wstring \<Rightarrow> state \<Rightarrow> HANDLE \<times> state" where
  "tempFile os dir s =
     (let (t, s1) = call_gmtime os s;
          prefix = tempFile_prefix t;
          path = dir @ backslash @ prefix @ ext
      in tempFile_loop os dir prefix 0 path s1)"

subsection \<open>\<^verbatim>\<open>dumpFile\<close>, lines 379-400\<close>

text \<open>\<^verbatim>\<open>dir.c_str()\<close> read back as a string ends before the first 0 character.\<close>

definition c_str :: "wstring \<Rightarrow> wstring" where
  "c_str w = takeWhile (\<lambda>c. c \<noteq> CHR 0x00) w"

definition dumpFile :: "win32 \<Rightarrow> state \<Rightarrow> HANDLE \<times> state" where
  "dumpFile os s =
     (let (h, s1) = tempFile os ''.'' s
      in if h \<noteq> INVALID_HANDLE_VALUE then (h, s1)
         else
           (let s2 = to_wclog CannotWriteDumpFileInCurrentDirectory s1;
                (dir, s3) = tempDir os s2
            in if dir \<noteq> [] then
                 (let (h', s4) = tempFile os (c_str dir) s3
                  in if h' \<noteq> INVALID_HANDLE_VALUE then (h', s4)
                     else (HandlePtr_empty os, s4))
               else (HandlePtr_empty os, s3)))"

section \<open>Dump Capturer\<close>

subsection \<open>\<^verbatim>\<open>createMiniDump\<close>, lines 402-442\<close>

text \<open>Lines 412-426: the flags and the line written to \<^verbatim>\<open>std::wclog\<close>.\<close>

definition createMiniDump_flags :: "CoreDumpTypes \<Rightarrow> DWORD \<times> msg" where
  "createMiniDump_flags type =
     (let flags = MiniDumpNormal OR MiniDumpWithHandleData OR MiniDumpWithUnloadedModules
                  OR MiniDumpWithProcessThreadData
      in if type = Data then (flags OR MiniDumpWithDataSegs, WritingMinidumpWithData)
         else if type = Full then (flags OR MiniDumpWithFullMemory, WritingFullMinidump)
         else (flags, WritingMiniMinidump))"

definition createMiniDump :: "win32 \<Rightarrow> HANDLE \<Rightarrow> CoreDumpTypes \<Rightarrow> state \<Rightarrow> bool \<times> state" where
  "createMiniDump os process type s =
     (let (p, s1) = call_GetProcessId os process s;
          (file, s2) = dumpFile os s1
      in if file = HandlePtr_empty os then (False, to_wcerr NowhereToWriteTheDumpFile s2)
         else
           (let (flags, line) = createMiniDump_flags type;
                s3 = to_wclog line s2;
                (ret, s4) = call_MiniDumpWriteDump os process p file flags s3
            in if \<not> ret then
                 (let (e, s5) = call_GetLastError os s4
                  in (False, to_wcerr (FailedToWriteMiniDump e) s5))
               else (True, to_wclog MinidumpWrittenCorrectly s4)))"

subsection \<open>\<^verbatim>\<open>coredump\<close> and \<^verbatim>\<open>coredumpOther\<close>, lines 445-477\<close>

definition coredump :: "win32 \<Rightarrow> CoreDumpTypes \<Rightarrow> state \<Rightarrow> bool \<times> state" where
  "coredump os type s =
     (let s0 = to_wclog CreatingMinidumpForTheCurrentProcess s;
          (process, s1) = call_GetCurrentProcess os s0
      in createMiniDump os process type s1)"

definition coredumpOther :: "win32 \<Rightarrow> CoreDumpTypes \<Rightarrow> state \<Rightarrow> bool \<times> state" where
  "coredumpOther os type s =
     (let s0 = to_wclog CreatingMinidumpForARunningProcess s;
          (p, s1) = findOtherPid os s0
      in if p = 0 then (False, to_wcerr NoOtherProcessFound s1)
         else
           (let s2 = to_wclog (FoundOtherProcessWithPid p) s1;
                (handle, s3) = call_OpenProcess os p s2
            in if handle = HandlePtr_empty os then
                 (let (e, s4) = call_GetLastError os s3
                  in (False, to_wcerr (FailedToOpenProcess p e) s4))
               else createMiniDump os handle type s3))"

section \<open>Reading the record of calls\<close>

text \<open>The calls a function made: those of the state it returns after those it started with.\<close>

definition new_calls :: "state \<Rightarrow> state \<Rightarrow> call list" where
  "new_calls s s' = drop (length (calls s)) (calls s')"

text \<open>
  One attempt of a growing-buffer query, as the code reads the answer of the system:
  the buffer was too small, the call failed, or the answer fits, with the capacity and
  the number of elements written. For \<^verbatim>\<open>EnumProcesses\<close> both are counted in
  identifiers of 4 bytes.
\<close>

datatype attempt = TooSmall | HardFailure | Fits nat nat

fun attempt_of :: "call \<Rightarrow> attempt list" where
  "attempt_of (GetModuleFileNameW_call n r) =
     [if r = 0 then HardFailure else if n \<le> r then TooSmall else Fits (unat n) (unat r)]"
| "attempt_of (GetModuleBaseNameW_call h n r) =
     [if r = 0 then HardFailure else if n \<le> r then TooSmall else Fits (unat n) (unat r)]"
| "attempt_of (EnumProcesses_call cb ok bytesWritten) =
     [if \<not> ok then HardFailure else if bytesWritten = cb then TooSmall
      else Fits (unat cb div 4) (unat bytesWritten div 4)]"
| "attempt_of _ = []"

definition attempts :: "call list \<Rightarrow> attempt list" where
  "attempts cs = concat (map attempt_of cs)"

definition all_too_small :: "attempt list \<Rightarrow> bool" where
  "all_too_small as = list_all (\<lambda>a. a = TooSmall) as"

text \<open>How a bounded retry loop ended.\<close>

datatype outcome = Succeeded | HardFailed | Exhausted

text \<open>
  The attempts of a growing-buffer query of at most \<open>n\<close> attempts that ended with
  \<open>out\<close>: every attempt but the last found the buffer too small; the last one fits,
  with fewer elements than the capacity, or failed, or was the \<open>n\<close>-th too small one.
\<close>

definition growth :: "nat \<Rightarrow> attempt list \<Rightarrow> outcome \<Rightarrow> bool" where
  "growth n as out =
     (length as \<le> n \<and> all_too_small (butlast as) \<and>
      (case out of
         Succeeded \<Rightarrow> as \<noteq> [] \<and> (\<exists>cap cnt. last as = Fits cap cnt \<and> cnt < cap)
       | HardFailed \<Rightarrow> as \<noteq> [] \<and> last as = HardFailure
       | Exhausted \<Rightarrow> length as = n \<and> all_too_small as))"

text \<open>
  The last of the calls \<open>new\<close>, made after the calls \<open>before\<close>, is a call of
  \<^verbatim>\<open>EnumProcesses\<close> that succeeded without filling the array, and \<open>r\<close> is every
  identifier the system had to offer at that call.
\<close>

definition enumerated :: "win32 \<Rightarrow> call list \<Rightarrow> call list \<Rightarrow> DWORD list \<Rightarrow> bool" where
  "enumerated os before new r =
     (new \<noteq> [] \<and> (\<exists>cb bytesWritten.
        last new = EnumProcesses_call cb True bytesWritten \<and> bytesWritten \<noteq> cb
        \<and> fst (EnumProcesses os (before @ butlast new) cb)
        \<and> r = snd (EnumProcesses os (before @ butlast new) cb)
        \<and> length r < unat cb div 4))"

text \<open>The calls that resolve a filename, and the calls the Sibling Locator may make.\<close>

fun query_call :: "call \<Rightarrow> bool" where
  "query_call (GetModuleFileNameW_call n r) = True"
| "query_call (GetModuleBaseNameW_call h n r) = True"
| "query_call (GetLastError_call e) = True"
| "query_call _ = False"

fun locator_call :: "call \<Rightarrow> bool" where
  "locator_call (GetCurrentProcessId_call r) = True"
| "locator_call (GetModuleFileNameW_call n r) = True"
| "locator_call (GetModuleBaseNameW_call h n r) = True"
| "locator_call (GetLastError_call e) = True"
| "locator_call (EnumProcesses_call cb ok bytesWritten) = True"
| "locator_call (OpenProcess_call p h) = (p \<noteq> 0)"
| "locator_call _ = False"

text \<open>The process identifiers that \<^verbatim>\<open>OpenProcess\<close> was called with.\<close>

fun opened_of :: "call \<Rightarrow> DWORD list" where
  "opened_of (OpenProcess_call p h) = [p]"
| "opened_of _ = []"

definition opened :: "call list \<Rightarrow> DWORD list" where
  "opened cs = concat (map opened_of cs)"

text \<open>The calls the Dump File Allocator may make, and the paths it tried to create.\<close>

fun allocator_call :: "call \<Rightarrow> bool" where
  "allocator_call (gmtime_call t) = True"
| "allocator_call (CreateFileW_call path h) = True"
| "allocator_call (GetLastError_call e) = True"
| "allocator_call (GetTempPathW_call n r) = True"
| "allocator_call _ = False"

fun tried_of :: "call \<Rightarrow> wstring list" where
  "tried_of (CreateFileW_call path h) = [path]"
| "tried_of _ = []"

definition tried :: "call list \<Rightarrow> wstring list" where
  "tried cs = concat (map tried_of cs)"

text \<open>The number of attempts that failed because the file exists already.\<close>

definition collisions :: "call list \<Rightarrow> nat" where
  "collisions cs = length (filter (\<lambda>c. c = GetLastError_call ERROR_FILE_EXISTS) cs)"

text \<open>The flags \<^verbatim>\<open>MiniDumpWriteDump\<close> was called with.\<close>

fun flags_of :: "call \<Rightarrow> DWORD list" where
  "flags_of (MiniDumpWriteDump_call process p file flags ret) = [flags]"
| "flags_of _ = []"

definition snapshot_flags :: "call list \<Rightarrow> DWORD list" where
  "snapshot_flags cs = concat (map flags_of cs)"

text \<open>
  The opens that failed, with their error: a call of \<^verbatim>\<open>OpenProcess\<close> that returned the
  handle \<open>none\<close>, followed at once by the call of \<^verbatim>\<open>GetLastError\<close>. \<open>pending\<close> is the
  process id of a failed open when that was the last call. \<open>refused\<close> is the process ids
  of all calls of \<^verbatim>\<open>OpenProcess\<close> that returned the handle \<open>none\<close>.
\<close>

fun failed_opens :: "HANDLE \<Rightarrow> DWORD option \<Rightarrow> call list \<Rightarrow> (DWORD \<times> DWORD) list" where
  "failed_opens none pending [] = []"
| "failed_opens none pending (c # cs) =
     (case c of
        GetLastError_call e \<Rightarrow>
          (case pending of Some p \<Rightarrow> [(p, e)] | None \<Rightarrow> []) @ failed_opens none None cs
      | OpenProcess_call p h \<Rightarrow> failed_opens none (if h = none then Some p else None) cs
      | _ \<Rightarrow> failed_opens none None cs)"

definition open_failures :: "HANDLE \<Rightarrow> call list \<Rightarrow> (DWORD \<times> DWORD) list" where
  "open_failures none cs = failed_opens none None cs"

fun refused_of :: "HANDLE \<Rightarrow> call \<Rightarrow> DWORD list" where
  "refused_of none (OpenProcess_call p h) = (if h = none then [p] else [])"
| "refused_of none _ = []"

definition refused :: "HANDLE \<Rightarrow> call list \<Rightarrow> DWORD list" where
  "refused none cs = concat (map (refused_of none) cs)"

text \<open>
  What a function wrote to \<^verbatim>\<open>std::wcerr\<close>, and the lines among it that report a process
  that could not be opened.
\<close>

definition new_wcerr :: "state \<Rightarrow> state \<Rightarrow> msg list" where
  "new_wcerr s s' = drop (length (wcerr s)) (wcerr s')"

fun open_line :: "msg \<Rightarrow> bool" where
  "open_line (FailedToOpenProcess p e) = True"
| "open_line _ = False"

section \<open>How the loops end\<close>

text \<open>
  What each of the three bounded loops returns and writes to \<^verbatim>\<open>std::wcerr\<close> (and, for
  \<^verbatim>\<open>runningProcessesIds\<close>, to \<^verbatim>\<open>std::cerr\<close>), for each way it can end: by a result, by a
  failure of the system call, or by running out of attempts.
\<close>

definition processFilename_ended ::
  "state \<Rightarrow> wstring option \<Rightarrow> state \<Rightarrow> outcome \<Rightarrow> bool" where
  "processFilename_ended s r s' out =
     (case out of
        Succeeded \<Rightarrow> r \<noteq> None \<and> wcerr s' = wcerr s
      | HardFailed \<Rightarrow> r = None \<and> (\<exists>e. wcerr s' = wcerr s @ [SystemMessage e])
      | Exhausted \<Rightarrow> r = None \<and> wcerr s' = wcerr s)"

text \<open>What \<^verbatim>\<open>processFilename\<close> reports when the loop ends without a filename.\<close>

definition failed_filename :: "HANDLE \<Rightarrow> msg" where
  "failed_filename process =
     (if process = INVALID_HANDLE_VALUE then FailedToGetFilenameForCurrentProcess
      else FailedToGetFilenameForPid process)"

definition runningProcessesIds_ended ::
  "win32 \<Rightarrow> state \<Rightarrow> call list \<Rightarrow> DWORD list \<Rightarrow> state \<Rightarrow> outcome \<Rightarrow> bool" where
  "runningProcessesIds_ended os s new r s' out =
     (case out of
        Succeeded \<Rightarrow> wcerr s' = wcerr s \<and> cerr s' = cerr s \<and> enumerated os (calls s) new r
      | HardFailed \<Rightarrow> r = [] \<and> cerr s' = cerr s
          \<and> (\<exists>e. wcerr s' = wcerr s @ [FailedToEnumerateProcesses e])
      | Exhausted \<Rightarrow> r = [] \<and> wcerr s' = wcerr s
          \<and> cerr s' = cerr s @ [AddressOfTooManyProcessesToEnumerate])"

text \<open>The path of the attempt \<open>k\<close> of \<^verbatim>\<open>tempFile\<close>, as lines 347 and 372 build it.\<close>

definition tempFile_path :: "wstring \<Rightarrow> wstring \<Rightarrow> nat \<Rightarrow> wstring" where
  "tempFile_path dir prefix k =
     (if k = 0 then dir @ backslash @ prefix @ ext
      else dir @ backslash @ prefix @ ''-'' @ to_wstring (int k) @ ext)"

definition tempFile_ended ::
  "win32 \<Rightarrow> nat \<Rightarrow> state \<Rightarrow> call list \<Rightarrow> HANDLE \<Rightarrow> state \<Rightarrow> outcome \<Rightarrow> bool" where
  "tempFile_ended os n s new h s' out =
     (case out of
        Succeeded \<Rightarrow> h \<noteq> INVALID_HANDLE_VALUE \<and> wcerr s' = wcerr s
          \<and> tried new \<noteq> [] \<and> Suc (collisions new) = length (tried new)
      | HardFailed \<Rightarrow> h = HandlePtr_empty os
          \<and> (\<exists>e. e \<noteq> ERROR_FILE_EXISTS \<and> wcerr s' = wcerr s @ [FailedToCreateDumpFile e])
          \<and> tried new \<noteq> [] \<and> Suc (collisions new) = length (tried new)
      | Exhausted \<Rightarrow> h = HandlePtr_empty os \<and> wcerr s' = wcerr s @ [RanOutOfFilenames]
          \<and> length (tried new) = n \<and> collisions new = n)"

section \<open>The words of the claims\<close>

text \<open>
  The claim's words for C2: the first record in enumeration order whose filename matches
  the given one without regard to case and whose process id differs from the caller's;
  0 if there is none.
\<close>

definition lower :: "char \<Rightarrow> char" where
  "lower c = (case map_of (zip ''ABCDEFGHIJKLMNOPQRSTUVWXYZ'' ''abcdefghijklmnopqrstuvwxyz'') c of
                None \<Rightarrow> c | Some l \<Rightarrow> l)"

definition findSiblingPid_spec :: "Process list \<Rightarrow> wstring \<Rightarrow> DWORD \<Rightarrow> DWORD" where
  "findSiblingPid_spec processes name thisPid =
     (case find (\<lambda>q. map lower (filename q) = map lower name \<and> pid q \<noteq> thisPid) processes of
        None \<Rightarrow> 0 | Some q \<Rightarrow> pid q)"

text \<open>
  The claim's words for C5: a field of two or four decimal digits, padded with zeros, and
  the name of the \<open>k\<close>-th attempt, with \<^verbatim>\<open>-k\<close> before the extension from the second
  attempt on.
\<close>

definition digit :: "int \<Rightarrow> char" where
  "digit d = ''0123456789'' ! nat d"

definition two_digits :: "int \<Rightarrow> string" where
  "two_digits n = [digit (n div 10), digit (n mod 10)]"

definition four_digits :: "int \<Rightarrow> string" where
  "four_digits n = [digit (n div 1000), digit (n div 100 mod 10), digit (n div 10 mod 10),
                    digit (n mod 10)]"

definition dump_name :: "tm \<Rightarrow> nat \<Rightarrow> wstring" where
  "dump_name t k =
     ''ModOrganizer-'' @ four_digits (1900 + tm_year t) @ two_digits (tm_mon t + 1)
     @ two_digits (tm_mday t) @ ''T'' @ two_digits (tm_hour t) @ two_digits (tm_min t)
     @ two_digits (tm_sec t)
     @ (if k = 0 then [] else if k < 10 then [CHR ''-'', digit (int k)]
        else [CHR ''-'', digit (int k div 10), digit (int k mod 10)])
     @ ''.dmp''"

text \<open>A UTC calendar time with a year of four digits.\<close>

definition calendar_time :: "tm \<Rightarrow> bool" where
  "calendar_time t =
     (1000 \<le> 1900 + tm_year t \<and> 1900 + tm_year t \<le> 9999
      \<and> 0 \<le> tm_mon t \<and> tm_mon t \<le> 11 \<and> 1 \<le> tm_mday t \<and> tm_mday t \<le> 31
      \<and> 0 \<le> tm_hour t \<and> tm_hour t \<le> 23 \<and> 0 \<le> tm_min t \<and> tm_min t \<le> 59
      \<and> 0 \<le> tm_sec t \<and> tm_sec t \<le> 60)"

text \<open>
  The claim's words for C8: no line for a failed open whose error is
  \<^verbatim>\<open>ERROR_ACCESS_DENIED\<close>, and one line, which names the process id, for any other.
\<close>

definition expected_open_lines :: "(DWORD \<times> DWORD) list \<Rightarrow> msg list" where
  "expected_open_lines fs =
     map (\<lambda>(p, e). FailedToOpenProcess p e) (filter (\<lambda>(p, e). e \<noteq> ERROR_ACCESS_DENIED) fs)"

section \<open>Environments\<close>

text \<open>
  The state before any call, and the time 2024-01-15 12:00:00 UTC.
\<close>

definition s0 :: state where
  "s0 = \<lparr>calls = [], wcerr = [], wclog = [], cerr = []\<rparr>"

definition noon :: tm where
  "noon = \<lparr>tm_year = 124, tm_mon = 0, tm_mday = 15, tm_hour = 12, tm_min = 0, tm_sec = 0\<rparr>"

text \<open>
  An environment in which every call fails, with the error \<^verbatim>\<open>ERROR_ACCESS_DENIED\<close>;
  this process has the process id 4, and an empty \<^verbatim>\<open>HandlePtr\<close> holds the null handle.
  The other environments change some of its answers.
\<close>

definition refusing_os :: win32 where
  "refusing_os =
     \<lparr>GetCurrentProcessId = (\<lambda>_. 4),
      GetModuleFileNameW = (\<lambda>_ _. (0, [])),
      GetModuleBaseNameW = (\<lambda>_ _ _. (0, [])),
      GetLastError = (\<lambda>_. ERROR_ACCESS_DENIED),
      EnumProcesses = (\<lambda>_ _. (False, [])),
      OpenProcess = (\<lambda>_ _. 0),
      GetTempPathW = (\<lambda>_ _. (0, [])),
      gmtime_now = (\<lambda>_. noon),
      CreateFileW = (\<lambda>_ _. INVALID_HANDLE_VALUE),
      GetProcessId = (\<lambda>_ _. 0),
      GetCurrentProcess = (\<lambda>_. - 1),
      MiniDumpWriteDump = (\<lambda>_ _ _ _ _. False),
      path_filename = (\<lambda>w. w),
      HandlePtr_empty = 0\<rparr>"


text \<open>
  The path of this process has 300 characters and there are 400 processes, so that the
  first buffer of each query is too small and the second one is not.
\<close>

definition growing_os :: win32 where
  "growing_os = refusing_os
     \<lparr>GetModuleFileNameW := (\<lambda>_ n. (min n 300, replicate 300 (CHR ''a''))),
      EnumProcesses := (\<lambda>_ _. (True, replicate 400 4))\<rparr>"

text \<open>
  This process is \<^verbatim>\<open>ModOrganizer.exe\<close>; the enumeration returns \<open>ids\<close>; the processes
  \<open>procs\<close> can be opened, the process \<open>p\<close> with the handle \<open>256 + p\<close>, and have the
  filenames given; any other process fails to open with the error 87.
\<close>

definition running_os :: "DWORD list \<Rightarrow> (DWORD \<times> wstring) list \<Rightarrow> win32" where
  "running_os ids procs = refusing_os
     \<lparr>GetModuleFileNameW := (\<lambda>_ _. (16, ''ModOrganizer.exe'')),
      GetModuleBaseNameW := (\<lambda>_ h _. case map_of procs (ucast (h - 256)) of
                                        None \<Rightarrow> (0, [])
                                      | Some name \<Rightarrow> (word_of_nat (length name), name)),
      GetLastError := (\<lambda>_. 87),
      EnumProcesses := (\<lambda>_ _. (True, ids)),
      OpenProcess := (\<lambda>_ p. case map_of procs p of None \<Rightarrow> 0 | Some name \<Rightarrow> 256 + ucast p)\<rparr>"

definition lowercase_os :: win32 where
  "lowercase_os = running_os [0, 4, 8] [(4, ''ModOrganizer.exe''), (8, ''modorganizer.exe'')]"

text \<open>
  Three processes \<^verbatim>\<open>ModOrganizer.exe\<close>, this one with the process id 4, enumerated in
  the order 4, 12, 8.
\<close>

definition siblings_os :: win32 where
  "siblings_os = running_os [0, 4, 12, 8]
     [(4, ''ModOrganizer.exe''), (8, ''ModOrganizer.exe''), (12, ''ModOrganizer.exe'')]"

definition sibling_os :: win32 where
  "sibling_os = (running_os [0, 4, 8] [(4, ''ModOrganizer.exe''), (8, ''ModOrganizer.exe'')])
     \<lparr>CreateFileW := (\<lambda>_ _. 0x2C),
      GetProcessId := (\<lambda>_ _. 8),
      MiniDumpWriteDump := (\<lambda>_ _ _ _ _. True)\<rparr>"

text \<open>Every file exists already; the files \<open>existing\<close> exist already.\<close>

definition colliding_os :: win32 where
  "colliding_os = refusing_os\<lparr>GetLastError := (\<lambda>_. ERROR_FILE_EXISTS)\<rparr>"

definition files_os :: "wstring list \<Rightarrow> win32" where
  "files_os existing = refusing_os
     \<lparr>GetLastError := (\<lambda>_. ERROR_FILE_EXISTS),
      CreateFileW := (\<lambda>_ path. if path \<in> set existing then INVALID_HANDLE_VALUE else 0x2C),
      GetProcessId := (\<lambda>_ _. 8),
      MiniDumpWriteDump := (\<lambda>_ _ _ _ _. True)\<rparr>"

text \<open>
  The current directory refuses every file, with \<^verbatim>\<open>ERROR_ACCESS_DENIED\<close>; the temporary
  directory is the directory \<^verbatim>\<open>Temp\<close> of the drive \<^verbatim>\<open>C:\<close> and takes every file.
\<close>

definition readonly_cwd_os :: win32 where
  "readonly_cwd_os = refusing_os
     \<lparr>GetTempPathW := (\<lambda>_ _. (8, ''C:'' @ backslash @ ''Temp'' @ backslash)),
      CreateFileW := (\<lambda>_ path. if take 1 path = ''.'' then INVALID_HANDLE_VALUE else 0x2C)\<rparr>"

text \<open>
  Of the processes 4, 8 and 12 only the process 4 can be opened; opening the process 8
  fails with \<^verbatim>\<open>ERROR_ACCESS_DENIED\<close> and opening the process 12 with the error 87.
\<close>

definition mixed_os :: win32 where
  "mixed_os = (running_os [0, 4, 8, 12] [(4, ''ModOrganizer.exe'')])
     \<lparr>GetLastError := (\<lambda>cs. if cs \<noteq> [] \<and> last cs = OpenProcess_call 8 0
                              then ERROR_ACCESS_DENIED else 87)\<rparr>"

section \<open>Properties\<close>

subsection \<open>The state and the record of calls\<close>

lemma calls_record_call [simp]: "calls (record_call c s) = calls s @ [c]"
  by (simp add: record_call_def)

lemma wcerr_record_call [simp]: "wcerr (record_call c s) = wcerr s"
  by (simp add: record_call_def)

lemma wclog_record_call [simp]: "wclog (record_call c s) = wclog s"
  by (simp add: record_call_def)

lemma calls_to_wcerr [simp]: "calls (to_wcerr m s) = calls s"
  by (simp add: to_wcerr_def)

lemma wcerr_to_wcerr [simp]: "wcerr (to_wcerr m s) = wcerr s @ [m]"
  by (simp add: to_wcerr_def)

lemma wclog_to_wcerr [simp]: "wclog (to_wcerr m s) = wclog s"
  by (simp add: to_wcerr_def)

lemma calls_to_wclog [simp]: "calls (to_wclog m s) = calls s"
  by (simp add: to_wclog_def)

lemma wcerr_to_wclog [simp]: "wcerr (to_wclog m s) = wcerr s"
  by (simp add: to_wclog_def)

lemma wclog_to_wclog [simp]: "wclog (to_wclog m s) = wclog s @ [m]"
  by (simp add: to_wclog_def)

lemma cerr_unchanged [simp]:
  "cerr (record_call c s) = cerr s" "cerr (to_wcerr m s) = cerr s" "cerr (to_wclog m s) = cerr s"
  by (simp_all add: record_call_def to_wcerr_def to_wclog_def)

lemma to_cerr_simps [simp]:
  "calls (to_cerr m s) = calls s" "wcerr (to_cerr m s) = wcerr s"
  "wclog (to_cerr m s) = wclog s" "cerr (to_cerr m s) = cerr s @ [m]"
  by (simp_all add: to_cerr_def)

lemma new_calls_append [simp]: "calls s' = calls s @ new \<Longrightarrow> new_calls s s' = new"
  by (simp add: new_calls_def)

lemma attempts_simps [simp]:
  "attempts [] = []"
  "attempts (c # cs) = attempt_of c @ attempts cs"
  "attempts (cs @ ds) = attempts cs @ attempts ds"
  by (simp_all add: attempts_def)

lemma opened_simps [simp]:
  "opened [] = []"
  "opened (c # cs) = opened_of c @ opened cs"
  "opened (cs @ ds) = opened cs @ opened ds"
  by (simp_all add: opened_def)

lemma tried_simps [simp]:
  "tried [] = []"
  "tried (c # cs) = tried_of c @ tried cs"
  "tried (cs @ ds) = tried cs @ tried ds"
  by (simp_all add: tried_def)

lemma snapshot_flags_simps [simp]:
  "snapshot_flags [] = []"
  "snapshot_flags (c # cs) = flags_of c @ snapshot_flags cs"
  "snapshot_flags (cs @ ds) = snapshot_flags cs @ snapshot_flags ds"
  by (simp_all add: snapshot_flags_def)

lemma collisions_simps [simp]:
  "collisions [] = 0"
  "collisions (c # cs) = (if c = GetLastError_call ERROR_FILE_EXISTS then 1 else 0) + collisions cs"
  "collisions (cs @ ds) = collisions cs + collisions ds"
  by (simp_all add: collisions_def)

lemma growth_Nil: "growth 0 [] Exhausted"
  by (simp add: growth_def all_too_small_def)

lemma growth_hard: "0 < n \<Longrightarrow> growth n [HardFailure] HardFailed"
  by (simp add: growth_def all_too_small_def)

lemma growth_fits: "0 < n \<Longrightarrow> cnt < cap \<Longrightarrow> growth n [Fits cap cnt] Succeeded"
  by (simp add: growth_def all_too_small_def)

lemma growth_Cons: "growth n as out \<Longrightarrow> growth (Suc n) (TooSmall # as) out"
  by (cases "as = []"; cases out) (auto simp: growth_def all_too_small_def)

lemma enumerated_Cons:
  "enumerated os (before @ [c]) new r \<Longrightarrow> enumerated os before (c # new) r"
  by (auto simp: enumerated_def)

lemma query_call_locator: "list_all query_call cs \<Longrightarrow> list_all locator_call cs"
proof (induction cs)
  case Nil
  show ?case by simp
next
  case (Cons c cs)
  then show ?case by (cases c) simp_all
qed

lemma query_call_opened: "list_all query_call cs \<Longrightarrow> opened cs = []"
proof (induction cs)
  case Nil
  show ?case by simp
next
  case (Cons c cs)
  then show ?case by (cases c) simp_all
qed

subsection \<open>Single calls\<close>

lemma GetLastError_step:
  assumes "call_GetLastError os s = (e, s1)"
  shows "calls s1 = calls s @ [GetLastError_call e]" and "wcerr s1 = wcerr s"
    and "wclog s1 = wclog s" and "e = GetLastError os (calls s)" and "cerr s1 = cerr s"
  using assms by (auto simp: call_GetLastError_def Let_def)

lemma query_step:
  assumes "(if process = INVALID_HANDLE_VALUE
            then call_GetModuleFileNameW os bufferSize s
            else call_GetModuleBaseNameW os process bufferSize s) = ((writtenSize, chars), s1)"
  shows "\<exists>c. calls s1 = calls s @ [c] \<and> query_call c
           \<and> attempt_of c = [if writtenSize = 0 then HardFailure
                              else if bufferSize \<le> writtenSize then TooSmall
                              else Fits (unat bufferSize) (unat writtenSize)]"
    and "wcerr s1 = wcerr s" and "wclog s1 = wclog s"
  using assms
  by (auto simp: call_GetModuleFileNameW_def call_GetModuleBaseNameW_def
           split: if_splits prod.splits)

subsection \<open>The growing buffer of \<^verbatim>\<open>processFilename\<close>\<close>

lemma processFilename_ended_from:
  "wcerr s1 = wcerr s \<Longrightarrow> processFilename_ended s1 r s' out \<Longrightarrow> processFilename_ended s r s' out"
  by (cases out) (simp_all add: processFilename_ended_def)

lemma processFilename_loop_trace:
  "processFilename_loop os process tries bufferSize s = (r, s') \<Longrightarrow>
   tries \<le> processFilename_MaxTries \<Longrightarrow>
   \<exists>new out. calls s' = calls s @ new \<and> wclog s' = wclog s \<and> list_all query_call new
     \<and> growth (processFilename_MaxTries - tries) (attempts new) out
     \<and> processFilename_ended s r s' out"
proof (induction os process tries bufferSize s arbitrary: r s' rule: processFilename_loop.induct)
  case (1 os process tries bufferSize s)
  let ?n = "processFilename_MaxTries - tries"
  show ?case
  proof (cases "tries < processFilename_MaxTries")
    case False
    with "1.prems" have "s' = s" "r = None" "?n = 0"
      by (subst (asm) processFilename_loop.simps, simp)+
    then have "calls s' = calls s @ [] \<and> wclog s' = wclog s \<and> list_all query_call []
      \<and> growth ?n (attempts []) Exhausted \<and> processFilename_ended s r s' Exhausted"
      by (simp add: growth_Nil processFilename_ended_def)
    then show ?thesis by blast
  next
    case True
    then have pos: "0 < ?n" by simp
    obtain writtenSize chars s1 where q:
      "(if process = INVALID_HANDLE_VALUE
        then call_GetModuleFileNameW os bufferSize s
        else call_GetModuleBaseNameW os process bufferSize s) = ((writtenSize, chars), s1)"
      by (metis surj_pair)
    from query_step(1) [OF q] obtain c where c:
      "calls s1 = calls s @ [c]" "query_call c"
      "attempt_of c = [if writtenSize = 0 then HardFailure
                       else if bufferSize \<le> writtenSize then TooSmall
                       else Fits (unat bufferSize) (unat writtenSize)]"
      by blast
    note s1 = query_step(2,3) [OF q]
    consider (hard) "writtenSize = 0"
      | (small) "writtenSize \<noteq> 0" "bufferSize \<le> writtenSize"
      | (ok) "writtenSize \<noteq> 0" "\<not> bufferSize \<le> writtenSize"
      by blast
    then show ?thesis
    proof cases
      case hard
      obtain e s2 where e: "call_GetLastError os s1 = (e, s2)" by (metis surj_pair)
      from "1.prems"(1) True q hard e have "r = None" "s' = to_wcerr (SystemMessage e) s2"
        by (subst (asm) processFilename_loop.simps, simp)+
      with GetLastError_step(1-3) [OF e] c s1 hard growth_hard [OF pos]
      have "calls s' = calls s @ [c, GetLastError_call e] \<and> wclog s' = wclog s
            \<and> list_all query_call [c, GetLastError_call e]
            \<and> growth ?n (attempts [c, GetLastError_call e]) HardFailed
            \<and> processFilename_ended s r s' HardFailed"
        by (simp add: processFilename_ended_def)
      then show ?thesis by blast
    next
      case small
      from "1.prems"(1) True q small
      have rec: "processFilename_loop os process (tries + 1) (bufferSize * 2) s1 = (r, s')"
        by (subst (asm) processFilename_loop.simps) simp
      have "tries + 1 \<le> processFilename_MaxTries" using True by simp
      from "1.IH" [OF True refl q [symmetric] refl refl small rec this]
      obtain new out where new: "calls s' = calls s1 @ new" "wclog s' = wclog s1"
        "list_all query_call new"
        "growth (processFilename_MaxTries - (tries + 1)) (attempts new) out"
        "processFilename_ended s1 r s' out"
        by blast
      have "Suc (processFilename_MaxTries - (tries + 1)) = ?n"
        using True by simp
      with growth_Cons [OF new(4)] c small new(1-3) s1
        processFilename_ended_from [OF s1(1) new(5)]
      have "calls s' = calls s @ (c # new) \<and> wclog s' = wclog s
            \<and> list_all query_call (c # new)
            \<and> growth ?n (attempts (c # new)) out
            \<and> processFilename_ended s r s' out"
        by simp
      then show ?thesis by blast
    next
      case ok
      from "1.prems"(1) True q ok have "s' = s1" "r \<noteq> None"
        by (subst (asm) processFilename_loop.simps, auto)+
      moreover have "unat writtenSize < unat bufferSize"
        using ok by (simp add: word_less_nat_alt not_le)
      ultimately have "calls s' = calls s @ [c] \<and> wclog s' = wclog s
            \<and> list_all query_call [c]
            \<and> growth ?n (attempts [c]) Succeeded
            \<and> processFilename_ended s r s' Succeeded"
        using c s1 ok growth_fits [OF pos] by (simp add: processFilename_ended_def)
      then show ?thesis by blast
    qed
  qed
qed

lemma processFilename_trace:
  assumes "processFilename os process s = (name, s')"
  shows "\<exists>new out. calls s' = calls s @ new \<and> wclog s' = wclog s \<and> list_all query_call new
     \<and> growth processFilename_MaxTries (attempts new) out
     \<and> (case out of
          Succeeded \<Rightarrow> wcerr s' = wcerr s
        | HardFailed \<Rightarrow> name = []
            \<and> (\<exists>e. wcerr s' = wcerr s @ [SystemMessage e, failed_filename process])
        | Exhausted \<Rightarrow> name = [] \<and> wcerr s' = wcerr s @ [failed_filename process])"
proof -
  obtain r s1 where l: "processFilename_loop os process 0 MAX_PATH s = (r, s1)"
    by (metis surj_pair)
  from processFilename_loop_trace [OF l] obtain new out where new:
    "calls s1 = calls s @ new" "wclog s1 = wclog s" "list_all query_call new"
    "growth processFilename_MaxTries (attempts new) out" "processFilename_ended s r s1 out"
    by auto
  show ?thesis
  proof (cases r)
    case None
    with assms l have res: "name = []" "s' = to_wcerr (failed_filename process) s1"
      by (simp_all add: processFilename_def failed_filename_def)
    from None new(5) have "out \<noteq> Succeeded" by (auto simp: processFilename_ended_def)
    with new res have "calls s' = calls s @ new \<and> wclog s' = wclog s \<and> list_all query_call new
     \<and> growth processFilename_MaxTries (attempts new) out
     \<and> (case out of
          Succeeded \<Rightarrow> wcerr s' = wcerr s
        | HardFailed \<Rightarrow> name = []
            \<and> (\<exists>e. wcerr s' = wcerr s @ [SystemMessage e, failed_filename process])
        | Exhausted \<Rightarrow> name = [] \<and> wcerr s' = wcerr s @ [failed_filename process])"
      by (cases out) (auto simp: processFilename_ended_def)
    then show ?thesis by blast
  next
    case (Some a)
    with assms l have res: "s' = s1" by (simp add: processFilename_def)
    from Some new(5) have "out = Succeeded \<and> wcerr s1 = wcerr s"
      by (cases out) (auto simp: processFilename_ended_def)
    with new res have "calls s' = calls s @ new \<and> wclog s' = wclog s \<and> list_all query_call new
     \<and> growth processFilename_MaxTries (attempts new) Succeeded
     \<and> (case Succeeded of
          Succeeded \<Rightarrow> wcerr s' = wcerr s
        | HardFailed \<Rightarrow> name = []
            \<and> (\<exists>e. wcerr s' = wcerr s @ [SystemMessage e, failed_filename process])
        | Exhausted \<Rightarrow> name = [] \<and> wcerr s' = wcerr s @ [failed_filename process])"
      by simp
    then show ?thesis by blast
  qed
qed

lemma processFilename_loop_cerr:
  "cerr (snd (processFilename_loop os process tries bufferSize s)) = cerr s"
proof (induction os process tries bufferSize s rule: processFilename_loop.induct)
  case (1 os process tries bufferSize s)
  show ?case
  proof (cases "tries < processFilename_MaxTries")
    case False
    then show ?thesis by (subst processFilename_loop.simps) simp
  next
    case True
    obtain writtenSize chars s1 where q:
      "(if process = INVALID_HANDLE_VALUE
        then call_GetModuleFileNameW os bufferSize s
        else call_GetModuleBaseNameW os process bufferSize s) = ((writtenSize, chars), s1)"
      by (metis surj_pair)
    then have s1: "cerr s1 = cerr s"
      by (auto simp: call_GetModuleFileNameW_def call_GetModuleBaseNameW_def
               split: if_splits prod.splits)
    show ?thesis
    proof (cases "writtenSize = 0")
      case zero: True
      obtain e s2 where e: "call_GetLastError os s1 = (e, s2)" by (metis surj_pair)
      from GetLastError_step(5) [OF e] s1 True q zero e show ?thesis
        by (subst processFilename_loop.simps) simp
    next
      case False
      from "1.IH" [OF True q [symmetric] refl refl refl False] s1 True q False show ?thesis
        by (subst processFilename_loop.simps) simp
    qed
  qed
qed

lemma processFilename_cerr: "cerr (snd (processFilename os process s)) = cerr s"
proof -
  obtain r s1 where l: "processFilename_loop os process 0 MAX_PATH s = (r, s1)"
    by (metis surj_pair)
  with processFilename_loop_cerr [of os process 0 MAX_PATH s] have "cerr s1 = cerr s" by simp
  with l show ?thesis by (cases r) (simp_all add: processFilename_def)
qed

subsection \<open>The growing buffer of \<^verbatim>\<open>runningProcessesIds\<close>\<close>

lemma bytesGiven_unat:
  fixes sz :: size_t
  assumes "unat sz < 2 ^ 30"
  shows "unat (ucast (sz * 4) :: DWORD) = 4 * unat sz"
proof -
  have "unat (sz * 4) = unat sz * 4"
    using assms by (simp add: unat_word_ariths)
  then show ?thesis
    using assms by (simp add: unsigned_ucast_eq take_bit_eq_mod)
qed

lemma bytesWritten_unat:
  assumes "k < 2 ^ 30"
  shows "unat (4 * word_of_nat k :: DWORD) = 4 * k"
  using assms by (simp add: unat_word_ariths unat_of_nat)

lemma count_unat:
  fixes bw :: DWORD
  shows "unat ((ucast bw :: size_t) div 4) = unat bw div 4"
proof -
  have "unat bw < 2 ^ 32" using unsigned_less [of bw] by simp
  then have "unat bw < 2 ^ 64" by simp
  then have "unat (ucast bw :: size_t) = unat bw"
    by (simp add: unsigned_ucast_eq take_bit_nat_eq_self)
  then show ?thesis by (simp add: unat_div)
qed

lemma take_filled: "k \<le> n \<Longrightarrow> take k (filled n z xs) = take k xs @ replicate (k - length xs) z"
  by (simp add: filled_def min_def)

lemma EnumProcesses_step:
  fixes sz :: size_t
  assumes "call_EnumProcesses os (unat sz) (ucast (sz * 4)) s = ((ok, ids, bytesWritten), s1)"
    and "unat sz < 2 ^ 30"
  shows "calls s1 = calls s @ [EnumProcesses_call (ucast (sz * 4)) ok bytesWritten]"
    and "wcerr s1 = wcerr s" and "wclog s1 = wclog s"
    and "ok = fst (EnumProcesses os (calls s) (ucast (sz * 4)))"
    and "ok \<Longrightarrow> bytesWritten = ucast (sz * 4) \<longleftrightarrow>
           unat sz \<le> length (snd (EnumProcesses os (calls s) (ucast (sz * 4))))"
    and "ok \<Longrightarrow> bytesWritten \<noteq> ucast (sz * 4) \<Longrightarrow>
           take (unat ((ucast bytesWritten :: size_t) div 4)) ids
             = snd (EnumProcesses os (calls s) (ucast (sz * 4)))
           \<and> unat bytesWritten div 4 < unat (ucast (sz * 4) :: DWORD) div 4"
    and "cerr s1 = cerr s"
proof -
  obtain ok' offered where o: "EnumProcesses os (calls s) (ucast (sz * 4)) = (ok', offered)"
    by (metis surj_pair)
  define stored where "stored = (if ok' then take (unat sz) offered else [])"
  have len: "length stored \<le> unat sz" by (simp add: stored_def)
  have bg: "unat (ucast (sz * 4) :: DWORD) = 4 * unat sz"
    by (rule bytesGiven_unat [OF assms(2)])
  have eqs: "ok = ok'" "ids = filled (unat sz) 0 stored"
    "bytesWritten = 4 * word_of_nat (length stored)"
    "s1 = record_call (EnumProcesses_call (ucast (sz * 4)) ok bytesWritten) s"
    using assms(1) o by (auto simp: call_EnumProcesses_def Let_def bg stored_def)
  have bw: "unat bytesWritten = 4 * length stored"
    unfolding eqs(3) using len assms(2) by (intro bytesWritten_unat) simp
  show "calls s1 = calls s @ [EnumProcesses_call (ucast (sz * 4)) ok bytesWritten]"
    and "wcerr s1 = wcerr s" and "wclog s1 = wclog s" and "cerr s1 = cerr s"
    by (simp_all add: eqs(4))
  show "ok = fst (EnumProcesses os (calls s) (ucast (sz * 4)))"
    by (simp add: eqs(1) o)
  have iff: "bytesWritten = ucast (sz * 4) \<longleftrightarrow> length stored = unat sz"
  proof -
    have "bytesWritten = ucast (sz * 4) \<longleftrightarrow> unat bytesWritten = unat (ucast (sz * 4) :: DWORD)"
      by (simp add: word_unat_eq_iff)
    then show ?thesis by (simp add: bw bg)
  qed
  show "bytesWritten = ucast (sz * 4) \<longleftrightarrow>
           unat sz \<le> length (snd (EnumProcesses os (calls s) (ucast (sz * 4))))" if ok
    using that iff by (auto simp: eqs(1) o stored_def min_def)
  show "take (unat ((ucast bytesWritten :: size_t) div 4)) ids
             = snd (EnumProcesses os (calls s) (ucast (sz * 4)))
           \<and> unat bytesWritten div 4 < unat (ucast (sz * 4) :: DWORD) div 4"
    if ok "bytesWritten \<noteq> ucast (sz * 4)"
  proof -
    from that iff have short: "length offered < unat sz" and st: "stored = offered"
      by (auto simp: eqs(1) stored_def min_def split: if_splits)
    have "take (unat ((ucast bytesWritten :: size_t) div 4)) ids = offered"
      using short by (simp add: count_unat bw eqs(2) st take_filled)
    moreover have "unat bytesWritten div 4 < unat (ucast (sz * 4) :: DWORD) div 4"
      using short by (simp add: bw bg st)
    ultimately show ?thesis by (simp add: o)
  qed
qed

lemma size_step:
  fixes sz :: size_t
  assumes "unat sz * 2 ^ (m - tries) < 2 ^ 30" "tries < (m::nat)"
  shows "unat sz < 2 ^ 30" and "unat (sz * 2) * 2 ^ (m - (tries + 1)) < 2 ^ 30"
proof -
  from assms(2) obtain k where k: "m - tries = Suc k" "m - (tries + 1) = k"
    by (metis Suc_diff_Suc add.commute plus_1_eq_Suc)
  with assms(1) have b: "unat sz * 2 * 2 ^ k < 2 ^ 30" by (simp add: mult.assoc)
  have "unat sz * 2 \<le> unat sz * 2 * 2 ^ k" by simp
  with b have c: "unat sz * 2 < 2 ^ 30" by linarith
  then show "unat sz < 2 ^ 30" by simp
  from c have "unat (sz * 2) = unat sz * 2" by (simp add: unat_word_ariths)
  with b k show "unat (sz * 2) * 2 ^ (m - (tries + 1)) < 2 ^ 30" by simp
qed

lemma runningProcessesIds_ended_Cons:
  "calls s1 = calls s @ [c] \<Longrightarrow> wcerr s1 = wcerr s \<Longrightarrow> cerr s1 = cerr s \<Longrightarrow>
   runningProcessesIds_ended os s1 new r s' out \<Longrightarrow>
   runningProcessesIds_ended os s (c # new) r s' out"
  by (cases out) (simp_all add: runningProcessesIds_ended_def enumerated_Cons)

lemma runningProcessesIds_loop_trace:
  "runningProcessesIds_loop os tries size' s = (r, s') \<Longrightarrow>
   tries \<le> runningProcessesIds_MaxTries \<Longrightarrow>
   unat size' * 2 ^ (runningProcessesIds_MaxTries - tries) < 2 ^ 30 \<Longrightarrow>
   \<exists>new out. calls s' = calls s @ new \<and> wclog s' = wclog s
     \<and> list_all locator_call new \<and> opened new = []
     \<and> growth (runningProcessesIds_MaxTries - tries) (attempts new) out
     \<and> runningProcessesIds_ended os s new r s' out"
proof (induction os tries size' s arbitrary: r s' rule: runningProcessesIds_loop.induct)
  case (1 os tries sz s)
  let ?n = "runningProcessesIds_MaxTries - tries"
  show ?case
  proof (cases "tries < runningProcessesIds_MaxTries")
    case False
    with "1.prems" have "s' = to_cerr AddressOfTooManyProcessesToEnumerate s" "r = []" "?n = 0"
      by (subst (asm) runningProcessesIds_loop.simps, simp)+
    then have "calls s' = calls s @ [] \<and> wclog s' = wclog s
       \<and> list_all locator_call [] \<and> opened [] = []
       \<and> growth ?n (attempts []) Exhausted
       \<and> runningProcessesIds_ended os s [] r s' Exhausted"
      by (simp add: growth_Nil runningProcessesIds_ended_def)
    then show ?thesis by blast
  next
    case True
    then have pos: "0 < ?n" by simp
    have small: "unat sz < 2 ^ 30"
      and next_size: "unat (sz * 2) * 2 ^ (runningProcessesIds_MaxTries - (tries + 1)) < 2 ^ 30"
      using size_step [OF "1.prems"(3) True] by blast+
    let ?cb = "ucast (sz * 4) :: DWORD"
    obtain ok ids bytesWritten s1 where q:
      "call_EnumProcesses os (unat sz) ?cb s = ((ok, ids, bytesWritten), s1)"
      by (metis surj_pair)
    note st = EnumProcesses_step [OF q small]
    let ?c = "EnumProcesses_call ?cb ok bytesWritten"
    consider (hard) "\<not> ok" | (full) ok "bytesWritten = ?cb" | (fits) ok "bytesWritten \<noteq> ?cb"
      by blast
    then show ?thesis
    proof cases
      case hard
      obtain e s2 where e: "call_GetLastError os s1 = (e, s2)" by (metis surj_pair)
      from "1.prems"(1) True q hard e
      have res: "r = []" "s' = to_wcerr (FailedToEnumerateProcesses e) s2"
        by (subst (asm) runningProcessesIds_loop.simps, simp)+
      have a: "attempts [?c, GetLastError_call e] = [HardFailure]" using hard by simp
      have "calls s' = calls s @ [?c, GetLastError_call e]" "wclog s' = wclog s"
        "wcerr s' = wcerr s @ [FailedToEnumerateProcesses e]" "cerr s' = cerr s"
        using res GetLastError_step(1-3,5) [OF e] st(1-3,7) by simp_all
      then have "calls s' = calls s @ [?c, GetLastError_call e] \<and> wclog s' = wclog s
        \<and> list_all locator_call [?c, GetLastError_call e]
        \<and> opened [?c, GetLastError_call e] = []
        \<and> growth ?n (attempts [?c, GetLastError_call e]) HardFailed
        \<and> runningProcessesIds_ended os s [?c, GetLastError_call e] r s' HardFailed"
        unfolding a using growth_hard [OF pos] res(1)
        by (simp add: runningProcessesIds_ended_def)
      then show ?thesis by blast
    next
      case full
      from "1.prems"(1) True q full
      have rec: "runningProcessesIds_loop os (tries + 1) (sz * 2) s1 = (r, s')"
        by (subst (asm) runningProcessesIds_loop.simps) simp
      have le: "tries + 1 \<le> runningProcessesIds_MaxTries" using True by simp
      have nn: "\<not> \<not> ok" using full(1) by simp
      from "1.IH" [OF True refl refl q [symmetric] refl refl nn full(2) rec le next_size]
      obtain new out where new: "calls s' = calls s1 @ new" "wclog s' = wclog s1"
        "list_all locator_call new" "opened new = []"
        "growth (runningProcessesIds_MaxTries - (tries + 1)) (attempts new) out"
        "runningProcessesIds_ended os s1 new r s' out"
        by blast
      have suc: "Suc (runningProcessesIds_MaxTries - (tries + 1)) = ?n" using True by simp
      have a: "attempts (?c # new) = TooSmall # attempts new" using full by simp
      have g: "growth ?n (attempts (?c # new)) out"
        unfolding a using growth_Cons [OF new(5)] suc by simp
      have "calls s' = calls s @ (?c # new)" "wclog s' = wclog s"
        "list_all locator_call (?c # new)" "opened (?c # new) = []"
        using new(1-4) st(1,3) by simp_all
      with g runningProcessesIds_ended_Cons [OF st(1,2,7) new(6)] show ?thesis by blast
    next
      case fits
      from "1.prems"(1) True q fits
      have res: "s' = s1" "r = take (unat ((ucast bytesWritten :: size_t) div 4)) ids"
        by (subst (asm) runningProcessesIds_loop.simps, simp)+
      from st(6) [OF fits] res(2)
      have r: "r = snd (EnumProcesses os (calls s) ?cb)"
        and lt: "unat bytesWritten div 4 < unat ?cb div 4" by simp_all
      have len: "length r < unat ?cb div 4"
      proof -
        have "unat ?cb = 4 * unat sz" by (rule bytesGiven_unat [OF small])
        moreover have "\<not> unat sz \<le> length (snd (EnumProcesses os (calls s) ?cb))"
          using st(5) fits by simp
        ultimately show ?thesis using r by simp
      qed
      have a: "attempts [?c] = [Fits (unat ?cb div 4) (unat bytesWritten div 4)]"
        using fits by simp
      have e: "enumerated os (calls s) [?c] r"
        using fits r len st(4) by (simp add: enumerated_def)
      have "calls s' = calls s @ [?c] \<and> wclog s' = wclog s
        \<and> list_all locator_call [?c] \<and> opened [?c] = []
        \<and> growth ?n (attempts [?c]) Succeeded
        \<and> runningProcessesIds_ended os s [?c] r s' Succeeded"
        unfolding a using e growth_fits [OF pos lt] st(1-3,7) res(1)
        by (simp add: runningProcessesIds_ended_def)
      then show ?thesis by blast
    qed
  qed
qed

lemma runningProcessesIds_trace:
  assumes "runningProcessesIds os s = (r, s')"
  shows "\<exists>new out. calls s' = calls s @ new \<and> wclog s' = wclog s
     \<and> list_all locator_call new \<and> opened new = []
     \<and> growth runningProcessesIds_MaxTries (attempts new) out
     \<and> runningProcessesIds_ended os s new r s' out"
proof -
  have "unat (300 :: size_t) * 2 ^ (runningProcessesIds_MaxTries - 0) < 2 ^ 30"
    by (simp add: runningProcessesIds_MaxTries_def)
  from runningProcessesIds_loop_trace [OF assms [unfolded runningProcessesIds_def] _ this]
  show ?thesis by simp
qed

lemma all_too_small_last: "all_too_small as \<Longrightarrow> as \<noteq> [] \<Longrightarrow> last as = TooSmall"
  by (simp add: all_too_small_def list_all_iff)

text \<open>
  C3. A buffer-growth sequence is the sequence of attempts of one run of a growing-buffer
  query, \<^verbatim>\<open>processFilename\<close> or \<^verbatim>\<open>runningProcessesIds\<close>. It has at least 1 and at most
  10 attempts, and every attempt but the last finds the buffer too small. When the last
  attempt fits, the call succeeds: the system wrote fewer elements than the capacity of
  the last buffer (and \<^verbatim>\<open>runningProcessesIds\<close> returns fewer identifiers than that
  capacity), and nothing is reported. When the last attempt finds the buffer too small,
  it is the tenth: the call reports failure after exactly 10 attempts. The only other
  way a run ends is the hard failure of the system call, which section 4.1 (c) of the
  specification sets apart from buffer growth: the call reports the error of the system
  at once and returns nothing.
\<close>

theorem growing_buffer_query_outcome:
  "(let (name, s') = processFilename os process s; as = attempts (new_calls s s')
    in as \<noteq> [] \<and> length as \<le> 10 \<and> all_too_small (butlast as) \<and>
       (case last as of
          Fits cap cnt \<Rightarrow> cnt < cap \<and> wcerr s' = wcerr s \<and> cerr s' = cerr s
        | TooSmall \<Rightarrow> length as = 10 \<and> name = [] \<and> cerr s' = cerr s
            \<and> wcerr s' = wcerr s @ [failed_filename process]
        | HardFailure \<Rightarrow> name = [] \<and> cerr s' = cerr s
            \<and> (\<exists>e. wcerr s' = wcerr s @ [SystemMessage e, failed_filename process])))
   \<and> (let (ids, s') = runningProcessesIds os s; as = attempts (new_calls s s')
      in as \<noteq> [] \<and> length as \<le> 10 \<and> all_too_small (butlast as) \<and>
         (case last as of
            Fits cap cnt \<Rightarrow> cnt < cap \<and> length ids < cap
              \<and> wcerr s' = wcerr s \<and> cerr s' = cerr s
          | TooSmall \<Rightarrow> length as = 10 \<and> ids = [] \<and> wcerr s' = wcerr s
              \<and> cerr s' = cerr s @ [AddressOfTooManyProcessesToEnumerate]
          | HardFailure \<Rightarrow> ids = [] \<and> cerr s' = cerr s
              \<and> (\<exists>e. wcerr s' = wcerr s @ [FailedToEnumerateProcesses e])))"
proof -
  obtain name s1 where p: "processFilename os process s = (name, s1)" by (metis surj_pair)
  from processFilename_cerr [of os process s] p have c: "cerr s1 = cerr s" by simp
  from processFilename_trace [OF p] c obtain new out where new:
    "calls s1 = calls s @ new"
    "growth processFilename_MaxTries (attempts new) out"
    "cerr s1 = cerr s"
    "case out of
       Succeeded \<Rightarrow> wcerr s1 = wcerr s
     | HardFailed \<Rightarrow> name = []
         \<and> (\<exists>e. wcerr s1 = wcerr s @ [SystemMessage e, failed_filename process])
     | Exhausted \<Rightarrow> name = [] \<and> wcerr s1 = wcerr s @ [failed_filename process]"
    by blast
  let ?as = "attempts (new_calls s s1)"
  have as: "?as = attempts new" using new(1) by simp
  have first: "?as \<noteq> [] \<and> length ?as \<le> 10 \<and> all_too_small (butlast ?as) \<and>
       (case last ?as of
          Fits cap cnt \<Rightarrow> cnt < cap \<and> wcerr s1 = wcerr s \<and> cerr s1 = cerr s
        | TooSmall \<Rightarrow> length ?as = 10 \<and> name = [] \<and> cerr s1 = cerr s
            \<and> wcerr s1 = wcerr s @ [failed_filename process]
        | HardFailure \<Rightarrow> name = [] \<and> cerr s1 = cerr s
            \<and> (\<exists>e. wcerr s1 = wcerr s @ [SystemMessage e, failed_filename process]))"
  proof (cases out)
    case Succeeded
    with new(2,3,4) show ?thesis unfolding as
      by (auto simp: growth_def processFilename_MaxTries_def)
  next
    case HardFailed
    with new(2,3,4) show ?thesis unfolding as
      by (auto simp: growth_def processFilename_MaxTries_def)
  next
    case Exhausted
    with new(2) have l: "length (attempts new) = 10" "all_too_small (attempts new)"
      by (simp_all add: growth_def processFilename_MaxTries_def)
    from l(1) have ne: "attempts new \<noteq> []" by auto
    from all_too_small_last [OF l(2) ne] l ne Exhausted new(2,3,4) show ?thesis unfolding as
      by (simp add: growth_def)
  qed
  obtain ids s2 where r: "runningProcessesIds os s = (ids, s2)" by (metis surj_pair)
  from runningProcessesIds_trace [OF r] obtain new' out' where new':
    "calls s2 = calls s @ new'"
    "growth runningProcessesIds_MaxTries (attempts new') out'"
    "runningProcessesIds_ended os s new' ids s2 out'"
    by blast
  let ?bs = "attempts (new_calls s s2)"
  have bs: "?bs = attempts new'" using new'(1) by simp
  have fits: "length ids < cap"
    if "enumerated os (calls s) new' ids" "last (attempts new') = Fits cap cnt" for cap cnt
  proof -
    from that(1) obtain cb bytesWritten where l: "new' \<noteq> []"
      "last new' = EnumProcesses_call cb True bytesWritten" "bytesWritten \<noteq> cb"
      "length ids < unat cb div 4"
      by (auto simp: enumerated_def)
    from l(1) have "new' = butlast new' @ [last new']" by simp
    then have "attempts new' = attempts (butlast new') @ attempts [last new']"
      by (metis attempts_simps(3))
    with l(2,3) have "last (attempts new') = Fits (unat cb div 4) (unat bytesWritten div 4)"
      by simp
    with that(2) l(4) show ?thesis by simp
  qed
  have second: "?bs \<noteq> [] \<and> length ?bs \<le> 10 \<and> all_too_small (butlast ?bs) \<and>
         (case last ?bs of
            Fits cap cnt \<Rightarrow> cnt < cap \<and> length ids < cap
              \<and> wcerr s2 = wcerr s \<and> cerr s2 = cerr s
          | TooSmall \<Rightarrow> length ?bs = 10 \<and> ids = [] \<and> wcerr s2 = wcerr s
              \<and> cerr s2 = cerr s @ [AddressOfTooManyProcessesToEnumerate]
          | HardFailure \<Rightarrow> ids = [] \<and> cerr s2 = cerr s
              \<and> (\<exists>e. wcerr s2 = wcerr s @ [FailedToEnumerateProcesses e]))"
  proof (cases out')
    case Succeeded
    with new'(2,3) fits show ?thesis unfolding bs
      by (auto simp: growth_def runningProcessesIds_ended_def runningProcessesIds_MaxTries_def)
  next
    case HardFailed
    with new'(2,3) show ?thesis unfolding bs
      by (auto simp: growth_def runningProcessesIds_ended_def runningProcessesIds_MaxTries_def)
  next
    case Exhausted
    with new'(2) have l: "length (attempts new') = 10" "all_too_small (attempts new')"
      by (simp_all add: growth_def runningProcessesIds_MaxTries_def)
    from l(1) have ne: "attempts new' \<noteq> []" by auto
    from all_too_small_last [OF l(2) ne] l ne Exhausted new'(2,3) show ?thesis unfolding bs
      by (simp add: growth_def runningProcessesIds_ended_def)
  qed
  from first second show ?thesis by (simp add: p r)
qed

theorem growing_buffer_query_outcome_witness:
  "attempts (new_calls s0 (snd (processFilename growing_os INVALID_HANDLE_VALUE s0)))
     = [TooSmall, Fits 520 300]
   \<and> attempts (new_calls s0 (snd (runningProcessesIds growing_os s0)))
       = [TooSmall, Fits 600 400]
   \<and> length (fst (runningProcessesIds growing_os s0)) = 400
   \<and> (let (name, s') = processFilename growing_os INVALID_HANDLE_VALUE s0;
          as = attempts (new_calls s0 s')
      in as \<noteq> [] \<and> length as \<le> 10 \<and> all_too_small (butlast as) \<and>
         (case last as of
            Fits cap cnt \<Rightarrow> cnt < cap \<and> wcerr s' = wcerr s0 \<and> cerr s' = cerr s0
          | TooSmall \<Rightarrow> length as = 10 \<and> name = [] \<and> cerr s' = cerr s0
              \<and> wcerr s' = wcerr s0 @ [failed_filename INVALID_HANDLE_VALUE]
          | HardFailure \<Rightarrow> name = [] \<and> cerr s' = cerr s0
              \<and> (\<exists>e. wcerr s' = wcerr s0 @ [SystemMessage e, failed_filename INVALID_HANDLE_VALUE])))
   \<and> (let (ids, s') = runningProcessesIds growing_os s0; as = attempts (new_calls s0 s')
      in as \<noteq> [] \<and> length as \<le> 10 \<and> all_too_small (butlast as) \<and>
         (case last as of
            Fits cap cnt \<Rightarrow> cnt < cap \<and> length ids < cap
              \<and> wcerr s' = wcerr s0 \<and> cerr s' = cerr s0
          | TooSmall \<Rightarrow> length as = 10 \<and> ids = [] \<and> wcerr s' = wcerr s0
              \<and> cerr s' = cerr s0 @ [AddressOfTooManyProcessesToEnumerate]
          | HardFailure \<Rightarrow> ids = [] \<and> cerr s' = cerr s0
              \<and> (\<exists>e. wcerr s' = wcerr s0 @ [FailedToEnumerateProcesses e])))"
proof -
  have a: "attempts (new_calls s0 (snd (processFilename growing_os INVALID_HANDLE_VALUE s0)))
     = [TooSmall, Fits 520 300]"
    by code_simp
  have b: "attempts (new_calls s0 (snd (runningProcessesIds growing_os s0)))
       = [TooSmall, Fits 600 400]"
    by code_simp
  have c: "length (fst (runningProcessesIds growing_os s0)) = 400"
    by code_simp
  from growing_buffer_query_outcome [of growing_os INVALID_HANDLE_VALUE s0]
  show ?thesis by (rule conjI [OF a conjI [OF b conjI [OF c]]])
qed

text \<open>
  The hard failure of section 4.1 (c): the system call fails at the first attempt, and
  the query reports failure after that one attempt.
\<close>

lemma processFilename_hard_failure_at_once:
  "fst (processFilename refusing_os INVALID_HANDLE_VALUE s0) = []
   \<and> wcerr (snd (processFilename refusing_os INVALID_HANDLE_VALUE s0))
       = [SystemMessage ERROR_ACCESS_DENIED, FailedToGetFilenameForCurrentProcess]
   \<and> attempts (new_calls s0 (snd (processFilename refusing_os INVALID_HANDLE_VALUE s0)))
       = [HardFailure]"
  by code_simp




subsection \<open>\<^verbatim>\<open>runningProcesses\<close>\<close>

lemma OpenProcess_step:
  assumes "call_OpenProcess os p s = (h, s1)"
  shows "calls s1 = calls s @ [OpenProcess_call p h]" and "wcerr s1 = wcerr s"
    and "wclog s1 = wclog s" and "h = OpenProcess os (calls s) p"
  using assms by (auto simp: call_OpenProcess_def Let_def)

lemma processFilename_calls:
  assumes "processFilename os process s = (name, s')"
  shows "\<exists>new. calls s' = calls s @ new \<and> wclog s' = wclog s \<and> list_all query_call new"
  using processFilename_trace [OF assms] by blast

lemma runningProcesses_body_trace:
  assumes "runningProcesses_body os p (v, s) = (v', s')"
    and "list_all (\<lambda>q. pid q \<noteq> 0) v"
  shows "\<exists>new. calls s' = calls s @ new \<and> wclog s' = wclog s \<and> list_all locator_call new
           \<and> opened new = (if p = 0 then [] else [p]) \<and> list_all (\<lambda>q. pid q \<noteq> 0) v'"
proof (cases "p = 0")
  case True
  with assms have "v' = v" "s' = s" by (simp_all add: runningProcesses_body_def)
  with True assms(2) have "calls s' = calls s @ [] \<and> wclog s' = wclog s
      \<and> list_all locator_call [] \<and> opened [] = (if p = 0 then [] else [p])
      \<and> list_all (\<lambda>q. pid q \<noteq> 0) v'" by simp
  then show ?thesis by blast
next
  case False
  obtain h s1 where o: "call_OpenProcess os p s = (h, s1)" by (metis surj_pair)
  note os1 = OpenProcess_step [OF o]
  show ?thesis
  proof (cases "h = HandlePtr_empty os")
    case True
    obtain e s2 where e: "call_GetLastError os s1 = (e, s2)" by (metis surj_pair)
    note es2 = GetLastError_step [OF e]
    from assms(1) False o True e
    have res: "v' = v" "s' = (if e \<noteq> ERROR_ACCESS_DENIED then to_wcerr (FailedToOpenProcess p e) s2 else s2)"
      by (auto simp: runningProcesses_body_def split: if_splits)
    with False assms(2) os1 es2
    have "calls s' = calls s @ [OpenProcess_call p h, GetLastError_call e] \<and> wclog s' = wclog s
      \<and> list_all locator_call [OpenProcess_call p h, GetLastError_call e]
      \<and> opened [OpenProcess_call p h, GetLastError_call e] = (if p = 0 then [] else [p])
      \<and> list_all (\<lambda>q. pid q \<noteq> 0) v'" by simp
    then show ?thesis by blast
  next
    case nonempty: False
    obtain name s2 where n: "processFilename os h s1 = (name, s2)" by (metis surj_pair)
    from processFilename_calls [OF n] obtain new where new:
      "calls s2 = calls s1 @ new" "wclog s2 = wclog s1" "list_all query_call new" by blast
    from assms(1) False o nonempty n
    have res: "s' = s2" "v' = (if name \<noteq> [] then v @ [\<lparr>filename = name, pid = p\<rparr>] else v)"
      by (auto simp: runningProcesses_body_def split: if_splits)
    with False assms(2) os1 new query_call_locator [OF new(3)] query_call_opened [OF new(3)]
    have "calls s' = calls s @ (OpenProcess_call p h # new) \<and> wclog s' = wclog s
      \<and> list_all locator_call (OpenProcess_call p h # new)
      \<and> opened (OpenProcess_call p h # new) = (if p = 0 then [] else [p])
      \<and> list_all (\<lambda>q. pid q \<noteq> 0) v'" by simp
    then show ?thesis by blast
  qed
qed

lemma runningProcesses_loop_trace:
  "runningProcesses_loop os pids (v, s) = (v', s') \<Longrightarrow> list_all (\<lambda>q. pid q \<noteq> 0) v \<Longrightarrow>
   \<exists>new. calls s' = calls s @ new \<and> wclog s' = wclog s \<and> list_all locator_call new
     \<and> opened new = filter (\<lambda>p. p \<noteq> 0) pids \<and> list_all (\<lambda>q. pid q \<noteq> 0) v'"
proof (induction pids arbitrary: v s)
  case Nil
  then have "calls s' = calls s @ [] \<and> wclog s' = wclog s \<and> list_all locator_call []
     \<and> opened [] = filter (\<lambda>p. p \<noteq> 0) [] \<and> list_all (\<lambda>q. pid q \<noteq> 0) v'" by simp
  then show ?case by blast
next
  case (Cons p pids)
  obtain v1 s1 where b: "runningProcesses_body os p (v, s) = (v1, s1)" by (metis surj_pair)
  from runningProcesses_body_trace [OF b Cons.prems(2)] obtain new1 where new1:
    "calls s1 = calls s @ new1" "wclog s1 = wclog s" "list_all locator_call new1"
    "opened new1 = (if p = 0 then [] else [p])" "list_all (\<lambda>q. pid q \<noteq> 0) v1" by blast
  from Cons.prems(1) b have "runningProcesses_loop os pids (v1, s1) = (v', s')" by simp
  from Cons.IH [OF this new1(5)] obtain new2 where new2:
    "calls s' = calls s1 @ new2" "wclog s' = wclog s1" "list_all locator_call new2"
    "opened new2 = filter (\<lambda>p. p \<noteq> 0) pids" "list_all (\<lambda>q. pid q \<noteq> 0) v'" by blast
  from new1 new2 have "calls s' = calls s @ (new1 @ new2) \<and> wclog s' = wclog s
     \<and> list_all locator_call (new1 @ new2)
     \<and> opened (new1 @ new2) = filter (\<lambda>p. p \<noteq> 0) (p # pids) \<and> list_all (\<lambda>q. pid q \<noteq> 0) v'"
    by simp
  then show ?case by blast
qed

lemma runningProcesses_trace:
  assumes "runningProcesses os s = (v, s')"
  shows "\<exists>new. calls s' = calls s @ new \<and> wclog s' = wclog s \<and> list_all locator_call new
     \<and> opened new = filter (\<lambda>p. p \<noteq> 0) (fst (runningProcessesIds os s))
     \<and> list_all (\<lambda>q. pid q \<noteq> 0) v"
proof -
  obtain pids s1 where i: "runningProcessesIds os s = (pids, s1)" by (metis surj_pair)
  from runningProcessesIds_trace [OF i] obtain new1 where new1:
    "calls s1 = calls s @ new1" "wclog s1 = wclog s" "list_all locator_call new1"
    "opened new1 = []" by blast
  from assms i have "runningProcesses_loop os pids ([], s1) = (v, s')"
    by (simp add: runningProcesses_def)
  from runningProcesses_loop_trace [OF this] obtain new2 where new2:
    "calls s' = calls s1 @ new2" "wclog s' = wclog s1" "list_all locator_call new2"
    "opened new2 = filter (\<lambda>p. p \<noteq> 0) pids" "list_all (\<lambda>q. pid q \<noteq> 0) v" by auto
  from new1 new2 i have "calls s' = calls s @ (new1 @ new2) \<and> wclog s' = wclog s
     \<and> list_all locator_call (new1 @ new2)
     \<and> opened (new1 @ new2) = filter (\<lambda>p. p \<noteq> 0) (fst (runningProcessesIds os s))
     \<and> list_all (\<lambda>q. pid q \<noteq> 0) v"
    by simp
  then show ?thesis by blast
qed

subsection \<open>\<^verbatim>\<open>findOtherPid\<close>\<close>

lemma findOtherPid_loop_find:
  "findOtherPid_loop processes name thisPid
     = map_option pid (find (\<lambda>q. filename q = name \<and> pid q \<noteq> thisPid) processes)"
  by (induction processes) simp_all

lemma findOtherPid_this_trace:
  assumes "findOtherPid_this os s = ((thisPid, name), s')"
  shows "\<exists>new. calls s' = calls s @ new \<and> list_all locator_call new \<and> opened new = []"
    and "thisPid = GetCurrentProcessId os (calls s)" and "name \<noteq> []"
proof -
  let ?s0 = "to_wclog LookingForTheOtherProcess s"
  let ?c = "GetCurrentProcessId_call (GetCurrentProcessId os (calls s))"
  let ?s2 = "to_wclog (ThisProcessIdIs (GetCurrentProcessId os (calls s))) (record_call ?c ?s0)"
  obtain own s3 where n: "processFilename os INVALID_HANDLE_VALUE ?s2 = (own, s3)"
    by (metis surj_pair)
  from processFilename_calls [OF n] obtain new where new:
    "calls s3 = calls s @ ?c # new" "list_all query_call new" by auto
  from assms n have res: "thisPid = GetCurrentProcessId os (calls s)"
    "name = (if own = [] then defaultName else own)"
    "calls s' = calls s3"
    by (auto simp: findOtherPid_this_def call_GetCurrentProcessId_def Let_def split: if_splits)
  from res(1) show "thisPid = GetCurrentProcessId os (calls s)" .
  from res(2) show "name \<noteq> []" by (simp add: defaultName_def)
  from res(3) new query_call_locator [OF new(2)] query_call_opened [OF new(2)]
  have "calls s' = calls s @ (?c # new) \<and> list_all locator_call (?c # new) \<and> opened (?c # new) = []"
    by simp
  then show "\<exists>new. calls s' = calls s @ new \<and> list_all locator_call new \<and> opened new = []"
    by blast
qed

lemma findOtherPid_search_trace:
  assumes "findOtherPid_search os thisPid name s = (other, s')"
  shows "\<exists>new. calls s' = calls s @ new \<and> list_all locator_call new"
    and "other = (case findOtherPid_loop (fst (runningProcesses os s)) name thisPid of
                   Some p \<Rightarrow> p | None \<Rightarrow> 0)"
proof -
  obtain v s1 where r: "runningProcesses os s = (v, s1)" by (metis surj_pair)
  from runningProcesses_trace [OF r] obtain new where new:
    "calls s1 = calls s @ new" "list_all locator_call new" by blast
  from assms r have "calls s' = calls s1"
    by (auto simp: findOtherPid_search_def Let_def split: option.splits)
  with new show "\<exists>new. calls s' = calls s @ new \<and> list_all locator_call new" by auto
  from assms r show "other = (case findOtherPid_loop (fst (runningProcesses os s)) name thisPid of
                   Some p \<Rightarrow> p | None \<Rightarrow> 0)"
    by (auto simp: findOtherPid_search_def Let_def split: option.splits)
qed

lemma findOtherPid_trace:
  assumes "findOtherPid os s = (other, s')"
  shows "\<exists>new. calls s' = calls s @ new \<and> list_all locator_call new"
proof -
  obtain thisPid name s1 where t: "findOtherPid_this os s = ((thisPid, name), s1)"
    by (metis surj_pair)
  from findOtherPid_this_trace(1) [OF t] obtain new1 where new1:
    "calls s1 = calls s @ new1" "list_all locator_call new1" by blast
  from assms t have "findOtherPid_search os thisPid name s1 = (other, s')"
    by (simp add: findOtherPid_def)
  from findOtherPid_search_trace(1) [OF this] obtain new2 where new2:
    "calls s' = calls s1 @ new2" "list_all locator_call new2" by blast
  from new1 new2 have "calls s' = calls s @ (new1 @ new2) \<and> list_all locator_call (new1 @ new2)"
    by simp
  then show ?thesis by blast
qed

lemma findOtherPid_this_name:
  assumes "findOtherPid_this os s = ((thisPid, name), s')"
  shows "name = (let own = fst (processFilename os INVALID_HANDLE_VALUE
                    (to_wclog (ThisProcessIdIs (GetCurrentProcessId os (calls s)))
                       (record_call (GetCurrentProcessId_call (GetCurrentProcessId os (calls s)))
                          (to_wclog LookingForTheOtherProcess s))))
                 in if own = [] then defaultName else own)"
  using assms
  by (auto simp: findOtherPid_this_def call_GetCurrentProcessId_def Let_def
           split: if_splits prod.splits)

text \<open>
  C2, as amended. \<^verbatim>\<open>findOtherPid\<close> takes as the identifier of this process what
  \<^verbatim>\<open>GetCurrentProcessId\<close> returns, and as its filename what \<^verbatim>\<open>processFilename\<close> resolves
  for the current process, or the default name \<^verbatim>\<open>ModOrganizer.exe\<close> when that is empty.
  It returns the process id of the first record, in the order of enumeration, whose
  filename is equal character for character to that filename and whose process id
  differs from this process's own; it returns 0 when there is no such record.
\<close>

theorem findOtherPid_first_match:
  "(let ((thisPid, name), s1) = findOtherPid_this os s;
        ownPid = GetCurrentProcessId os (calls s);
        own = fst (processFilename os INVALID_HANDLE_VALUE
                (to_wclog (ThisProcessIdIs ownPid)
                   (record_call (GetCurrentProcessId_call ownPid)
                      (to_wclog LookingForTheOtherProcess s))));
        processes = fst (runningProcesses os s1);
        other = fst (findOtherPid os s)
    in thisPid = ownPid \<and> name = (if own = [] then defaultName else own) \<and>
       ((\<exists>i < length processes.
            filename (processes ! i) = name \<and> pid (processes ! i) \<noteq> thisPid
            \<and> (\<forall>j < i. \<not> (filename (processes ! j) = name \<and> pid (processes ! j) \<noteq> thisPid))
            \<and> other = pid (processes ! i) \<and> other \<noteq> 0)
        \<or> ((\<forall>q \<in> set processes. \<not> (filename q = name \<and> pid q \<noteq> thisPid)) \<and> other = 0)))"
proof -
  obtain thisPid name s1 where t: "findOtherPid_this os s = ((thisPid, name), s1)"
    by (metis surj_pair)
  obtain processes s2 where r: "runningProcesses os s1 = (processes, s2)" by (metis surj_pair)
  obtain other s3 where f: "findOtherPid os s = (other, s3)" by (metis surj_pair)
  let ?P = "\<lambda>q. filename q = name \<and> pid q \<noteq> thisPid"
  from f t have "findOtherPid_search os thisPid name s1 = (other, s3)"
    by (simp add: findOtherPid_def)
  from findOtherPid_search_trace(2) [OF this] r
  have other: "other = (case find ?P processes of Some q \<Rightarrow> pid q | None \<Rightarrow> 0)"
    by (simp add: findOtherPid_loop_find split: option.splits)
  from runningProcesses_trace [OF r] have nz: "list_all (\<lambda>q. pid q \<noteq> 0) processes" by blast
  have "(\<exists>i < length processes. ?P (processes ! i) \<and> (\<forall>j < i. \<not> ?P (processes ! j))
            \<and> other = pid (processes ! i) \<and> other \<noteq> 0)
        \<or> ((\<forall>q \<in> set processes. \<not> ?P q) \<and> other = 0)"
  proof (cases "find ?P processes")
    case None
    then have "\<forall>q \<in> set processes. \<not> ?P q" by (simp add: find_None_iff)
    with other None show ?thesis by simp
  next
    case (Some q)
    then obtain i where i: "i < length processes" "?P (processes ! i)" "q = processes ! i"
      "\<forall>j < i. \<not> ?P (processes ! j)"
      by (auto simp: find_Some_iff)
    from nz i(1) have "pid (processes ! i) \<noteq> 0" by (simp add: list_all_length)
    with other Some i show ?thesis by auto
  qed
  with findOtherPid_this_trace(2) [OF t] findOtherPid_this_name [OF t, unfolded Let_def]
  show ?thesis by (simp add: t r f Let_def)
qed

theorem findOtherPid_first_match_witness:
  "fst (findOtherPid_this siblings_os s0) = (4, ''ModOrganizer.exe'')
   \<and> map pid (fst (runningProcesses siblings_os (snd (findOtherPid_this siblings_os s0))))
       = [4, 12, 8]
   \<and> fst (findOtherPid siblings_os s0) = 12
   \<and> fst (findOtherPid_this refusing_os s0) = (4, ''ModOrganizer.exe'')
   \<and> (let ((thisPid, name), s1) = findOtherPid_this siblings_os s0;
        ownPid = GetCurrentProcessId siblings_os (calls s0);
        own = fst (processFilename siblings_os INVALID_HANDLE_VALUE
                (to_wclog (ThisProcessIdIs ownPid)
                   (record_call (GetCurrentProcessId_call ownPid)
                      (to_wclog LookingForTheOtherProcess s0))));
        processes = fst (runningProcesses siblings_os s1);
        other = fst (findOtherPid siblings_os s0)
    in thisPid = ownPid \<and> name = (if own = [] then defaultName else own) \<and>
       ((\<exists>i < length processes.
            filename (processes ! i) = name \<and> pid (processes ! i) \<noteq> thisPid
            \<and> (\<forall>j < i. \<not> (filename (processes ! j) = name \<and> pid (processes ! j) \<noteq> thisPid))
            \<and> other = pid (processes ! i) \<and> other \<noteq> 0)
        \<or> ((\<forall>q \<in> set processes. \<not> (filename q = name \<and> pid q \<noteq> thisPid)) \<and> other = 0)))"
proof -
  have a: "fst (findOtherPid_this siblings_os s0) = (4, ''ModOrganizer.exe'')"
    by code_simp
  have b: "map pid (fst (runningProcesses siblings_os (snd (findOtherPid_this siblings_os s0))))
       = [4, 12, 8]"
    by code_simp
  have c: "fst (findOtherPid siblings_os s0) = 12"
    by code_simp
  have d: "fst (findOtherPid_this refusing_os s0) = (4, ''ModOrganizer.exe'')"
    by code_simp
  from findOtherPid_first_match [of siblings_os s0]
  show ?thesis by (rule conjI [OF a conjI [OF b conjI [OF c conjI [OF d]]]])
qed

text \<open>
  C2 as stated fails: with this process \<^verbatim>\<open>ModOrganizer.exe\<close> of process id 4 and another
  process \<^verbatim>\<open>modorganizer.exe\<close> of process id 8, the code finds no sibling, where a
  comparison without regard to case finds process 8.
\<close>

theorem findOtherPid_case_counterexample:
  "fst (findOtherPid_this lowercase_os s0) = (4, ''ModOrganizer.exe'')
   \<and> fst (runningProcesses lowercase_os (snd (findOtherPid_this lowercase_os s0)))
       = [\<lparr>filename = ''ModOrganizer.exe'', pid = 4\<rparr>, \<lparr>filename = ''modorganizer.exe'', pid = 8\<rparr>]
   \<and> fst (findOtherPid lowercase_os s0) = 0
   \<and> findSiblingPid_spec
        [\<lparr>filename = ''ModOrganizer.exe'', pid = 4\<rparr>, \<lparr>filename = ''modorganizer.exe'', pid = 8\<rparr>]
        ''ModOrganizer.exe'' 4 = 8"
  by code_simp

text \<open>
  C7. No record that \<^verbatim>\<open>runningProcesses\<close> returns has the process id 0, and
  \<^verbatim>\<open>OpenProcess\<close> is called for exactly the identifiers other than 0 that the
  enumeration returned, in their order: the identifier 0 is skipped before anything is
  opened.
\<close>

theorem runningProcesses_skips_zero:
  "(let (v, s') = runningProcesses os s
    in list_all (\<lambda>q. pid q \<noteq> 0) v
       \<and> opened (new_calls s s') = filter (\<lambda>p. p \<noteq> 0) (fst (runningProcessesIds os s))
       \<and> 0 \<notin> set (opened (new_calls s s')))"
proof -
  obtain v s' where r: "runningProcesses os s = (v, s')" by (metis surj_pair)
  from runningProcesses_trace [OF r] obtain new where new:
    "calls s' = calls s @ new"
    "opened new = filter (\<lambda>p. p \<noteq> 0) (fst (runningProcessesIds os s))"
    "list_all (\<lambda>q. pid q \<noteq> 0) v" by blast
  from new(1) have "new_calls s s' = new" by simp
  with new(2,3) show ?thesis by (simp add: r)
qed

theorem runningProcesses_skips_zero_witness:
  "fst (runningProcessesIds lowercase_os s0) = [0, 4, 8]
   \<and> fst (runningProcesses lowercase_os s0)
       = [\<lparr>filename = ''ModOrganizer.exe'', pid = 4\<rparr>, \<lparr>filename = ''modorganizer.exe'', pid = 8\<rparr>]
   \<and> opened (new_calls s0 (snd (runningProcesses lowercase_os s0))) = [4, 8]
   \<and> (let (v, s') = runningProcesses lowercase_os s0
      in list_all (\<lambda>q. pid q \<noteq> 0) v
         \<and> opened (new_calls s0 s') = filter (\<lambda>p. p \<noteq> 0) (fst (runningProcessesIds lowercase_os s0))
         \<and> 0 \<notin> set (opened (new_calls s0 s')))"
proof -
  have "fst (runningProcessesIds lowercase_os s0) = [0, 4, 8]"
    by code_simp
  moreover have "fst (runningProcesses lowercase_os s0)
       = [\<lparr>filename = ''ModOrganizer.exe'', pid = 4\<rparr>, \<lparr>filename = ''modorganizer.exe'', pid = 8\<rparr>]"
    by code_simp
  moreover have "opened (new_calls s0 (snd (runningProcesses lowercase_os s0))) = [4, 8]"
    by code_simp
  ultimately show ?thesis
    using runningProcesses_skips_zero [of lowercase_os s0] by blast
qed

lemma failed_opens_append:
  "xs \<noteq> [] \<Longrightarrow> opened_of (last xs) = [] \<Longrightarrow>
   failed_opens none pending (xs @ ys) = failed_opens none pending xs @ failed_opens none None ys"
proof (induction xs arbitrary: pending)
  case Nil
  then show ?case by simp
next
  case (Cons c xs)
  show ?case
  proof (cases "xs = []")
    case True
    with Cons.prems show ?thesis by (cases c) simp_all
  next
    case False
    with Cons.prems have "opened_of (last xs) = []" by simp
    from Cons.IH [OF False this] show ?thesis by (cases c) simp_all
  qed
qed

lemma open_failures_append:
  "xs = [] \<or> opened_of (last xs) = [] \<Longrightarrow>
   open_failures none (xs @ ys) = open_failures none xs @ open_failures none ys"
  by (cases "xs = []") (auto simp: open_failures_def failed_opens_append)

lemma failed_opens_none: "opened cs = [] \<Longrightarrow> failed_opens none None cs = []"
proof (induction cs)
  case Nil
  show ?case by simp
next
  case (Cons c cs)
  then show ?case by (cases c) simp_all
qed

lemma refused_none: "opened cs = [] \<Longrightarrow> refused none cs = []"
proof (induction cs)
  case Nil
  show ?case by (simp add: refused_def)
next
  case (Cons c cs)
  then show ?case by (cases c) (simp_all add: refused_def)
qed

lemma refused_append [simp]: "refused none (xs @ ys) = refused none xs @ refused none ys"
  by (simp add: refused_def)

lemma opened_last: "opened cs = [] \<Longrightarrow> cs = [] \<or> opened_of (last cs) = []"
proof (induction cs)
  case Nil
  show ?case by simp
next
  case (Cons c cs)
  then show ?case by (cases "cs = []") simp_all
qed

lemma expected_open_lines_append [simp]:
  "expected_open_lines (fs @ gs) = expected_open_lines fs @ expected_open_lines gs"
  by (simp add: expected_open_lines_def)

lemma new_wcerr_append [simp]: "wcerr s' = wcerr s @ errs \<Longrightarrow> new_wcerr s s' = errs"
  by (simp add: new_wcerr_def)

lemma processFilename_errs:
  assumes "processFilename os process s = (name, s')"
  shows "\<exists>new errs. calls s' = calls s @ new \<and> new \<noteq> [] \<and> list_all query_call new
           \<and> wcerr s' = wcerr s @ errs \<and> filter open_line errs = []"
proof -
  from processFilename_trace [OF assms] obtain new out where new:
    "calls s' = calls s @ new" "list_all query_call new"
    "growth processFilename_MaxTries (attempts new) out"
    "case out of
       Succeeded \<Rightarrow> wcerr s' = wcerr s
     | HardFailed \<Rightarrow> name = []
         \<and> (\<exists>e. wcerr s' = wcerr s @ [SystemMessage e, failed_filename process])
     | Exhausted \<Rightarrow> name = [] \<and> wcerr s' = wcerr s @ [failed_filename process]"
    by blast
  from new(3) have "attempts new \<noteq> []"
    by (cases out) (auto simp: growth_def processFilename_MaxTries_def)
  then have ne: "new \<noteq> []" by auto
  have f: "\<not> open_line (failed_filename process)" by (simp add: failed_filename_def)
  have "\<exists>errs. wcerr s' = wcerr s @ errs \<and> filter open_line errs = []"
  proof (cases out)
    case Succeeded
    with new(4) have "wcerr s' = wcerr s @ [] \<and> filter open_line [] = []" by simp
    then show ?thesis by blast
  next
    case HardFailed
    with new(4) obtain e where "wcerr s' = wcerr s @ [SystemMessage e, failed_filename process]"
      by auto
    with f have "wcerr s' = wcerr s @ [SystemMessage e, failed_filename process]
      \<and> filter open_line [SystemMessage e, failed_filename process] = []" by simp
    then show ?thesis by blast
  next
    case Exhausted
    with new(4) f have "wcerr s' = wcerr s @ [failed_filename process]
      \<and> filter open_line [failed_filename process] = []" by simp
    then show ?thesis by blast
  qed
  with new(1,2) ne show ?thesis by blast
qed

lemma runningProcessesIds_errs:
  assumes "runningProcessesIds os s = (ids, s')"
  shows "\<exists>new errs. calls s' = calls s @ new \<and> opened new = []
           \<and> wcerr s' = wcerr s @ errs \<and> filter open_line errs = []"
proof -
  from runningProcessesIds_trace [OF assms] obtain new out where new:
    "calls s' = calls s @ new" "opened new = []"
    "runningProcessesIds_ended os s new ids s' out"
    by blast
  have "\<exists>errs. wcerr s' = wcerr s @ errs \<and> filter open_line errs = []"
  proof (cases out)
    case Succeeded
    with new(3) have "wcerr s' = wcerr s @ [] \<and> filter open_line [] = []"
      by (simp add: runningProcessesIds_ended_def)
    then show ?thesis by blast
  next
    case HardFailed
    with new(3) obtain e where "wcerr s' = wcerr s @ [FailedToEnumerateProcesses e]"
      by (auto simp: runningProcessesIds_ended_def)
    then have "wcerr s' = wcerr s @ [FailedToEnumerateProcesses e]
      \<and> filter open_line [FailedToEnumerateProcesses e] = []" by simp
    then show ?thesis by blast
  next
    case Exhausted
    with new(3) have "wcerr s' = wcerr s @ [] \<and> filter open_line [] = []"
      by (simp add: runningProcessesIds_ended_def)
    then show ?thesis by blast
  qed
  with new(1,2) show ?thesis by blast
qed

lemma runningProcesses_body_errs:
  assumes "runningProcesses_body os p (v, s) = (v', s')"
  shows "\<exists>new errs. calls s' = calls s @ new \<and> wcerr s' = wcerr s @ errs
           \<and> (new = [] \<or> opened_of (last new) = [])
           \<and> map fst (open_failures (HandlePtr_empty os) new) = refused (HandlePtr_empty os) new
           \<and> filter open_line errs
               = expected_open_lines (open_failures (HandlePtr_empty os) new)"
proof (cases "p = 0")
  case True
  with assms have "s' = s" by (simp add: runningProcesses_body_def)
  then have "calls s' = calls s @ [] \<and> wcerr s' = wcerr s @ []
      \<and> ([] = [] \<or> opened_of (last []) = [])
      \<and> map fst (open_failures (HandlePtr_empty os) []) = refused (HandlePtr_empty os) []
      \<and> filter open_line [] = expected_open_lines (open_failures (HandlePtr_empty os) [])"
    by (simp add: open_failures_def expected_open_lines_def refused_def)
  then show ?thesis by blast
next
  case False
  obtain h s1 where o: "call_OpenProcess os p s = (h, s1)" by (metis surj_pair)
  note os1 = OpenProcess_step [OF o]
  show ?thesis
  proof (cases "h = HandlePtr_empty os")
    case True
    obtain e s2 where e: "call_GetLastError os s1 = (e, s2)" by (metis surj_pair)
    note es2 = GetLastError_step [OF e]
    let ?new = "[OpenProcess_call p h, GetLastError_call e]"
    let ?errs = "if e \<noteq> ERROR_ACCESS_DENIED then [FailedToOpenProcess p e] else []"
    from assms False o True e
    have "s' = (if e \<noteq> ERROR_ACCESS_DENIED then to_wcerr (FailedToOpenProcess p e) s2 else s2)"
      by (auto simp: runningProcesses_body_def split: if_splits)
    with os1 es2 True
    have "calls s' = calls s @ ?new \<and> wcerr s' = wcerr s @ ?errs
      \<and> (?new = [] \<or> opened_of (last ?new) = [])
      \<and> map fst (open_failures (HandlePtr_empty os) ?new) = refused (HandlePtr_empty os) ?new
      \<and> filter open_line ?errs = expected_open_lines (open_failures (HandlePtr_empty os) ?new)"
      by (simp add: open_failures_def expected_open_lines_def refused_def)
    then show ?thesis by blast
  next
    case nonempty: False
    obtain name s2 where n: "processFilename os h s1 = (name, s2)" by (metis surj_pair)
    from processFilename_errs [OF n] obtain new errs where new:
      "calls s2 = calls s1 @ new" "new \<noteq> []" "list_all query_call new"
      "wcerr s2 = wcerr s1 @ errs" "filter open_line errs = []" by blast
    note q = query_call_opened [OF new(3)]
    from opened_last [OF q] new(2) have l: "opened_of (last new) = []" by simp
    from assms False o nonempty n have "s' = s2"
      by (auto simp: runningProcesses_body_def split: if_splits)
    with os1 new nonempty l failed_opens_none [OF q] refused_none [OF q, of "HandlePtr_empty os"]
    have "calls s' = calls s @ (OpenProcess_call p h # new) \<and> wcerr s' = wcerr s @ errs
      \<and> (OpenProcess_call p h # new = [] \<or> opened_of (last (OpenProcess_call p h # new)) = [])
      \<and> map fst (open_failures (HandlePtr_empty os) (OpenProcess_call p h # new))
          = refused (HandlePtr_empty os) (OpenProcess_call p h # new)
      \<and> filter open_line errs
          = expected_open_lines (open_failures (HandlePtr_empty os) (OpenProcess_call p h # new))"
      by (simp add: open_failures_def expected_open_lines_def refused_def)
    then show ?thesis by blast
  qed
qed

lemma runningProcesses_loop_errs:
  "runningProcesses_loop os pids (v, s) = (v', s') \<Longrightarrow>
   \<exists>new errs. calls s' = calls s @ new \<and> wcerr s' = wcerr s @ errs
     \<and> (new = [] \<or> opened_of (last new) = [])
     \<and> map fst (open_failures (HandlePtr_empty os) new) = refused (HandlePtr_empty os) new
     \<and> filter open_line errs = expected_open_lines (open_failures (HandlePtr_empty os) new)"
proof (induction pids arbitrary: v s)
  case Nil
  then have "calls s' = calls s @ [] \<and> wcerr s' = wcerr s @ []
      \<and> ([] = [] \<or> opened_of (last []) = [])
      \<and> map fst (open_failures (HandlePtr_empty os) []) = refused (HandlePtr_empty os) []
      \<and> filter open_line [] = expected_open_lines (open_failures (HandlePtr_empty os) [])"
    by (simp add: open_failures_def expected_open_lines_def refused_def)
  then show ?case by blast
next
  case (Cons p pids)
  obtain v1 s1 where b: "runningProcesses_body os p (v, s) = (v1, s1)" by (metis surj_pair)
  from runningProcesses_body_errs [OF b] obtain new1 errs1 where new1:
    "calls s1 = calls s @ new1" "wcerr s1 = wcerr s @ errs1"
    "new1 = [] \<or> opened_of (last new1) = []"
    "map fst (open_failures (HandlePtr_empty os) new1) = refused (HandlePtr_empty os) new1"
    "filter open_line errs1 = expected_open_lines (open_failures (HandlePtr_empty os) new1)"
    by blast
  from Cons.prems b have "runningProcesses_loop os pids (v1, s1) = (v', s')" by simp
  from Cons.IH [OF this] obtain new2 errs2 where new2:
    "calls s' = calls s1 @ new2" "wcerr s' = wcerr s1 @ errs2"
    "new2 = [] \<or> opened_of (last new2) = []"
    "map fst (open_failures (HandlePtr_empty os) new2) = refused (HandlePtr_empty os) new2"
    "filter open_line errs2 = expected_open_lines (open_failures (HandlePtr_empty os) new2)"
    by blast
  have l: "new1 @ new2 = [] \<or> opened_of (last (new1 @ new2)) = []"
    using new1(3) new2(3) by (cases "new2 = []") auto
  from new1 new2 open_failures_append [OF new1(3), of "HandlePtr_empty os" new2]
  have "calls s' = calls s @ (new1 @ new2) \<and> wcerr s' = wcerr s @ (errs1 @ errs2)
     \<and> map fst (open_failures (HandlePtr_empty os) (new1 @ new2))
         = refused (HandlePtr_empty os) (new1 @ new2)
     \<and> filter open_line (errs1 @ errs2)
         = expected_open_lines (open_failures (HandlePtr_empty os) (new1 @ new2))"
    by simp
  with l show ?case by blast
qed

lemma runningProcesses_errs:
  assumes "runningProcesses os s = (v, s')"
  shows "filter open_line (new_wcerr s s')
     = expected_open_lines (open_failures (HandlePtr_empty os) (new_calls s s'))"
    and "map fst (open_failures (HandlePtr_empty os) (new_calls s s'))
     = refused (HandlePtr_empty os) (new_calls s s')"
proof -
  obtain pids s1 where i: "runningProcessesIds os s = (pids, s1)" by (metis surj_pair)
  from runningProcessesIds_errs [OF i] obtain new1 errs1 where new1:
    "calls s1 = calls s @ new1" "opened new1 = []"
    "wcerr s1 = wcerr s @ errs1" "filter open_line errs1 = []" by blast
  from assms i have "runningProcesses_loop os pids ([], s1) = (v, s')"
    by (simp add: runningProcesses_def)
  from runningProcesses_loop_errs [OF this] obtain new2 errs2 where new2:
    "calls s' = calls s1 @ new2" "wcerr s' = wcerr s1 @ errs2"
    "map fst (open_failures (HandlePtr_empty os) new2) = refused (HandlePtr_empty os) new2"
    "filter open_line errs2 = expected_open_lines (open_failures (HandlePtr_empty os) new2)"
    by blast
  have "open_failures (HandlePtr_empty os) new1 = []"
    using failed_opens_none [OF new1(2)] by (simp add: open_failures_def)
  with open_failures_append [OF opened_last [OF new1(2)], of "HandlePtr_empty os" new2]
  have f: "open_failures (HandlePtr_empty os) (new1 @ new2)
             = open_failures (HandlePtr_empty os) new2"
    by simp
  have c: "new_calls s s' = new1 @ new2" using new1(1) new2(1) by simp
  have w: "new_wcerr s s' = errs1 @ errs2"
    using new1(3) new2(2) by (simp add: new_wcerr_def)
  from f c w new1(4) new2(4)
  show "filter open_line (new_wcerr s s')
     = expected_open_lines (open_failures (HandlePtr_empty os) (new_calls s s'))" by simp
  from f c new2(3) refused_none [OF new1(2), of "HandlePtr_empty os"]
  show "map fst (open_failures (HandlePtr_empty os) (new_calls s s'))
     = refused (HandlePtr_empty os) (new_calls s s')" by simp
qed

lemma runningProcesses_loop_snoc:
  "runningProcesses_loop os (pids @ [p]) vs
     = runningProcesses_body os p (runningProcesses_loop os pids vs)"
  by (induction pids arbitrary: vs) simp_all

lemma runningProcesses_failed_open:
  assumes "p \<noteq> 0" and "OpenProcess os (calls s) p = HandlePtr_empty os"
  shows "(let e = GetLastError os (calls s @ [OpenProcess_call p (HandlePtr_empty os)]);
              s' = snd (runningProcesses_body os p (v, s))
          in wclog s' = wclog s \<and> cerr s' = cerr s
             \<and> wcerr s' = (if e = ERROR_ACCESS_DENIED then wcerr s
                           else wcerr s @ [FailedToOpenProcess p e]))"
  using assms
  by (simp add: runningProcesses_body_def call_OpenProcess_def call_GetLastError_def Let_def)

text \<open>
  C8. \<^verbatim>\<open>runningProcesses\<close> runs its loop over the identifiers \<open>pids\<close> that the enumeration
  returned, and calls \<^verbatim>\<open>OpenProcess\<close> for each of them other than 0, in their order.
  When the identifier number \<open>i\<close> is not 0 and cannot be opened, the pass of the loop for
  it writes nothing to \<^verbatim>\<open>std::wclog\<close> and \<^verbatim>\<open>std::cerr\<close>; when the error is
  \<^verbatim>\<open>ERROR_ACCESS_DENIED\<close> it writes nothing to \<^verbatim>\<open>std::wcerr\<close> either, and for any other
  error it writes exactly one line there, which names the process id. Over the whole
  run, every open that failed is followed by a call of \<^verbatim>\<open>GetLastError\<close>, and the lines
  of \<^verbatim>\<open>std::wcerr\<close> about a process that could not be opened are, in order, one for each
  failed open whose error is not \<^verbatim>\<open>ERROR_ACCESS_DENIED\<close>, with its process id and its
  error.
\<close>

theorem failed_open_logging:
  "(let (pids, s1) = runningProcessesIds os s;
        (r, s') = runningProcesses os s;
        after = (\<lambda>k. snd (runningProcesses_loop os (take k pids) ([], s1)));
        p = pids ! i;
        e = GetLastError os (calls (after i) @ [OpenProcess_call p (HandlePtr_empty os)]);
        new = new_calls s s';
        failures = open_failures (HandlePtr_empty os) new
    in s' = after (length pids)
       \<and> opened new = filter (\<lambda>p. p \<noteq> 0) pids
       \<and> (i < length pids \<and> p \<noteq> 0 \<and> OpenProcess os (calls (after i)) p = HandlePtr_empty os \<longrightarrow>
            wclog (after (Suc i)) = wclog (after i) \<and> cerr (after (Suc i)) = cerr (after i)
            \<and> wcerr (after (Suc i))
                = (if e = ERROR_ACCESS_DENIED then wcerr (after i)
                   else wcerr (after i) @ [FailedToOpenProcess p e]))
       \<and> map fst failures = refused (HandlePtr_empty os) new
       \<and> filter open_line (new_wcerr s s') = expected_open_lines failures)"
proof -
  obtain pids s1 where ids: "runningProcessesIds os s = (pids, s1)" by (metis surj_pair)
  obtain r s' where r: "runningProcesses os s = (r, s')" by (metis surj_pair)
  let ?after = "\<lambda>k. snd (runningProcesses_loop os (take k pids) ([], s1))"
  let ?p = "pids ! i"
  let ?e = "GetLastError os (calls (?after i) @ [OpenProcess_call ?p (HandlePtr_empty os)])"
  from r ids have whole: "s' = ?after (length pids)" by (simp add: runningProcesses_def)
  from runningProcesses_trace [OF r] ids obtain new where new:
    "calls s' = calls s @ new" "opened new = filter (\<lambda>p. p \<noteq> 0) pids" by auto
  from new(1) have "new_calls s s' = new" by simp
  with new(2) have opens: "opened (new_calls s s') = filter (\<lambda>p. p \<noteq> 0) pids" by simp
  have step: "wclog (?after (Suc i)) = wclog (?after i) \<and> cerr (?after (Suc i)) = cerr (?after i)
            \<and> wcerr (?after (Suc i))
                = (if ?e = ERROR_ACCESS_DENIED then wcerr (?after i)
                   else wcerr (?after i) @ [FailedToOpenProcess ?p ?e])"
    if i: "i < length pids" and p: "?p \<noteq> 0"
      and o: "OpenProcess os (calls (?after i)) ?p = HandlePtr_empty os"
  proof -
    obtain v t where t: "runningProcesses_loop os (take i pids) ([], s1) = (v, t)"
      by (metis surj_pair)
    from i have "take (Suc i) pids = take i pids @ [?p]" by (rule take_Suc_conv_app_nth)
    with t have n: "?after (Suc i) = snd (runningProcesses_body os ?p (v, t))"
      by (simp add: runningProcesses_loop_snoc)
    from t have a: "?after i = t" by simp
    from o a have "OpenProcess os (calls t) ?p = HandlePtr_empty os" by simp
    from runningProcesses_failed_open [OF p this, of v] show ?thesis
      unfolding n a by (simp add: Let_def)
  qed
  from whole opens step runningProcesses_errs [OF r] show ?thesis
    by (simp add: ids r Let_def)
qed

theorem failed_open_logging_witness:
  "fst (runningProcessesIds mixed_os s0) = [0, 4, 8, 12]
   \<and> opened (new_calls s0 (snd (runningProcesses mixed_os s0))) = [4, 8, 12]
   \<and> open_failures (HandlePtr_empty mixed_os) (new_calls s0 (snd (runningProcesses mixed_os s0)))
       = [(8, ERROR_ACCESS_DENIED), (12, 87)]
   \<and> new_wcerr s0 (snd (runningProcesses mixed_os s0)) = [FailedToOpenProcess 12 87]
   \<and> filter open_line (new_wcerr s0 (snd (runningProcesses mixed_os s0)))
       = expected_open_lines [(8, ERROR_ACCESS_DENIED), (12, 87)]
   \<and> wcerr (snd (runningProcesses_loop mixed_os [0, 4, 8] ([], snd (runningProcessesIds mixed_os s0))))
       = wcerr (snd (runningProcesses_loop mixed_os [0, 4] ([], snd (runningProcessesIds mixed_os s0))))
   \<and> wcerr (snd (runningProcesses_loop mixed_os [0, 4, 8, 12] ([], snd (runningProcessesIds mixed_os s0))))
       = wcerr (snd (runningProcesses_loop mixed_os [0, 4, 8] ([], snd (runningProcessesIds mixed_os s0))))
           @ [FailedToOpenProcess 12 87]"
proof -
  let ?s1 = "snd (runningProcessesIds mixed_os s0)"
  let ?pids = "fst (runningProcessesIds mixed_os s0)"
  let ?after = "\<lambda>k. snd (runningProcesses_loop mixed_os (take k ?pids) ([], ?s1))"
  have ids: "?pids = [0, 4, 8, 12]" by code_simp
  have opens: "opened (new_calls s0 (snd (runningProcesses mixed_os s0))) = [4, 8, 12]"
    by code_simp
  have m: "open_failures (HandlePtr_empty mixed_os)
             (new_calls s0 (snd (runningProcesses mixed_os s0)))
           = [(8, ERROR_ACCESS_DENIED), (12, 87)]"
    by code_simp
  have w: "new_wcerr s0 (snd (runningProcesses mixed_os s0)) = [FailedToOpenProcess 12 87]"
    by code_simp
  have o2: "OpenProcess mixed_os (calls (?after 2)) (?pids ! 2) = HandlePtr_empty mixed_os"
    by code_simp
  have e2: "GetLastError mixed_os
              (calls (?after 2) @ [OpenProcess_call (?pids ! 2) (HandlePtr_empty mixed_os)])
            = ERROR_ACCESS_DENIED"
    by code_simp
  have o3: "OpenProcess mixed_os (calls (?after 3)) (?pids ! 3) = HandlePtr_empty mixed_os"
    by code_simp
  have e3: "GetLastError mixed_os
              (calls (?after 3) @ [OpenProcess_call (?pids ! 3) (HandlePtr_empty mixed_os)])
            = 87"
    by code_simp
  have p: "?pids ! 2 = 8" "?pids ! 3 = 12" "length ?pids = 4" by (simp_all add: ids)
  have t: "take 2 ?pids = [0, 4]" "take (Suc 2) ?pids = [0, 4, 8]" "take 3 ?pids = [0, 4, 8]"
    "take (Suc 3) ?pids = [0, 4, 8, 12]"
    by (simp_all add: ids)
  note T = failed_open_logging [of mixed_os s0, unfolded Let_def case_prod_beta]
  from T [of 2] o2 e2 p
  have a: "wcerr (?after (Suc 2)) = wcerr (?after 2)" by simp
  from T [of 3] o3 e3 p
  have b: "wcerr (?after (Suc 3)) = wcerr (?after 3) @ [FailedToOpenProcess 12 87]"
    by (simp add: ERROR_ACCESS_DENIED_def)
  from T [of 0]
  have "filter open_line (new_wcerr s0 (snd (runningProcesses mixed_os s0)))
       = expected_open_lines (open_failures (HandlePtr_empty mixed_os)
           (new_calls s0 (snd (runningProcesses mixed_os s0))))" by blast
  then have c: "filter open_line (new_wcerr s0 (snd (runningProcesses mixed_os s0)))
       = expected_open_lines [(8, ERROR_ACCESS_DENIED), (12, 87)]" by (simp only: m)
  have a': "wcerr (snd (runningProcesses_loop mixed_os [0, 4, 8] ([], ?s1)))
       = wcerr (snd (runningProcesses_loop mixed_os [0, 4] ([], ?s1)))"
    using a by (simp only: t)
  have b': "wcerr (snd (runningProcesses_loop mixed_os [0, 4, 8, 12] ([], ?s1)))
       = wcerr (snd (runningProcesses_loop mixed_os [0, 4, 8] ([], ?s1))) @ [FailedToOpenProcess 12 87]"
    using b by (simp only: t)
  show ?thesis by (rule conjI [OF ids conjI [OF opens conjI [OF m conjI [OF w conjI [OF c conjI [OF a' b']]]]]])
qed

text \<open>
  C10. When the enumeration of processes fails, by a hard failure of \<^verbatim>\<open>EnumProcesses\<close>
  or by 10 attempts that all fill the array, the list of running processes is empty and
  \<^verbatim>\<open>findOtherPid\<close> returns 0, the value it also returns when the enumeration succeeds
  and no sibling runs.
\<close>

theorem enumeration_failure_gives_zero:
  "(let s1 = snd (findOtherPid_this os s);
        as = attempts (new_calls s1 (snd (runningProcessesIds os s1)))
    in (as \<noteq> [] \<and> last as = HardFailure) \<or> (length as = 10 \<and> all_too_small as)) \<Longrightarrow>
   fst (runningProcesses os (snd (findOtherPid_this os s))) = []
   \<and> fst (findOtherPid os s) = 0"
proof -
  assume a: "let s1 = snd (findOtherPid_this os s);
        as = attempts (new_calls s1 (snd (runningProcessesIds os s1)))
    in (as \<noteq> [] \<and> last as = HardFailure) \<or> (length as = 10 \<and> all_too_small as)"
  obtain thisPid name s1 where t: "findOtherPid_this os s = ((thisPid, name), s1)"
    by (metis surj_pair)
  obtain ids s2 where i: "runningProcessesIds os s1 = (ids, s2)" by (metis surj_pair)
  from runningProcessesIds_trace [OF i] obtain new out where new:
    "calls s2 = calls s1 @ new"
    "growth runningProcessesIds_MaxTries (attempts new) out"
    "runningProcessesIds_ended os s1 new ids s2 out" by blast
  from new(1) have n: "new_calls s1 s2 = new" by simp
  from a t i n have b: "(attempts new \<noteq> [] \<and> last (attempts new) = HardFailure)
      \<or> (length (attempts new) = 10 \<and> all_too_small (attempts new))"
    by (simp add: Let_def)
  have "out \<noteq> Succeeded"
  proof
    assume "out = Succeeded"
    with new(2) obtain cap cnt where l: "attempts new \<noteq> []" "last (attempts new) = Fits cap cnt"
      by (auto simp: growth_def)
    from l(1) have "last (attempts new) \<in> set (attempts new)" by simp
    with b l show False by (auto simp: all_too_small_def list_all_iff)
  qed
  with new(3) have "ids = []" by (cases out) (simp_all add: runningProcessesIds_ended_def)
  with i have r: "fst (runningProcesses os s1) = []" by (simp add: runningProcesses_def)
  obtain other s3 where f: "findOtherPid_search os thisPid name s1 = (other, s3)"
    by (metis surj_pair)
  from findOtherPid_search_trace(2) [OF f] r have "other = 0" by simp
  with f t have "fst (findOtherPid os s) = 0" by (simp add: findOtherPid_def)
  with r t show ?thesis by simp
qed

theorem enumeration_failure_gives_zero_witness:
  "(let s1 = snd (findOtherPid_this refusing_os s0);
        as = attempts (new_calls s1 (snd (runningProcessesIds refusing_os s1)))
    in (as \<noteq> [] \<and> last as = HardFailure) \<or> (length as = 10 \<and> all_too_small as))
   \<and> fst (runningProcesses refusing_os (snd (findOtherPid_this refusing_os s0))) = []
   \<and> fst (findOtherPid refusing_os s0) = 0
   \<and> fst (findOtherPid (running_os [0, 4] [(4, ''ModOrganizer.exe'')]) s0) = 0"
proof -
  have h: "(let s1 = snd (findOtherPid_this refusing_os s0);
        as = attempts (new_calls s1 (snd (runningProcessesIds refusing_os s1)))
    in (as \<noteq> [] \<and> last as = HardFailure) \<or> (length as = 10 \<and> all_too_small as))"
    by code_simp
  have "fst (findOtherPid (running_os [0, 4] [(4, ''ModOrganizer.exe'')]) s0) = 0"
    by code_simp
  with h enumeration_failure_gives_zero [OF h] show ?thesis by simp
qed

subsection \<open>Decimal numbers\<close>

lemma digits_1: "n < 10 \<Longrightarrow> digits n = [''0123456789'' ! n]"
  by (subst digits.simps) simp

lemma digits_2:
  assumes "10 \<le> n" "n < 100"
  shows "digits n = [''0123456789'' ! (n div 10), ''0123456789'' ! (n mod 10)]"
proof -
  have "n div 10 < 10" using assms by simp
  then show ?thesis using assms by (subst digits.simps) (simp add: digits_1)
qed

lemma digits_3:
  assumes "100 \<le> n" "n < 1000"
  shows "digits n = [''0123456789'' ! (n div 100), ''0123456789'' ! (n div 10 mod 10),
                     ''0123456789'' ! (n mod 10)]"
proof -
  have "10 \<le> n div 10" "n div 10 < 100" using assms by simp_all
  from digits_2 [OF this] show ?thesis
    using assms by (subst digits.simps) (simp add: div_mult2_eq [symmetric])
qed

lemma digits_4:
  assumes "1000 \<le> n" "n < 10000"
  shows "digits n = [''0123456789'' ! (n div 1000), ''0123456789'' ! (n div 100 mod 10),
                     ''0123456789'' ! (n div 10 mod 10), ''0123456789'' ! (n mod 10)]"
proof -
  have "100 \<le> n div 10" "n div 10 < 1000" using assms by simp_all
  from digits_3 [OF this] show ?thesis
    using assms by (subst digits.simps) (simp add: div_mult2_eq [symmetric])
qed

lemma setw_two_digits:
  assumes "0 \<le> n" "n < 100"
  shows "setw 2 (CHR ''0'') n = two_digits n"
proof (cases "n < 10")
  case True
  with assms have "digits (nat n) = [''0123456789'' ! nat n]" by (intro digits_1) simp
  moreover from True assms have "n div 10 = 0" "n mod 10 = n" by simp_all
  ultimately show ?thesis using assms
    by (simp add: setw_def to_wstring_def two_digits_def digit_def)
next
  case False
  with assms have "digits (nat n) = [''0123456789'' ! (nat n div 10), ''0123456789'' ! (nat n mod 10)]"
    by (intro digits_2) simp_all
  moreover have "nat (n div 10) = nat n div 10" "nat (n mod 10) = nat n mod 10"
    using assms by (simp_all add: nat_div_distrib nat_mod_distrib)
  ultimately show ?thesis using assms
    by (simp add: setw_def to_wstring_def two_digits_def digit_def)
qed

lemma setw_four_digits:
  assumes "1000 \<le> n" "n \<le> 9999"
  shows "setw 4 c n = four_digits n"
proof -
  from assms have "digits (nat n) = [''0123456789'' ! (nat n div 1000),
      ''0123456789'' ! (nat n div 100 mod 10), ''0123456789'' ! (nat n div 10 mod 10),
      ''0123456789'' ! (nat n mod 10)]"
    by (intro digits_4) simp_all
  moreover have "nat (n div 1000) = nat n div 1000" "nat (n div 100 mod 10) = nat n div 100 mod 10"
    "nat (n div 10 mod 10) = nat n div 10 mod 10" "nat (n mod 10) = nat n mod 10"
    using assms by (simp_all add: nat_div_distrib nat_mod_distrib)
  ultimately show ?thesis using assms
    by (simp add: setw_def to_wstring_def four_digits_def digit_def)
qed

lemma tempFile_prefix_calendar:
  assumes "calendar_time t"
  shows "tempFile_prefix t @ ext = dump_name t 0"
    and "0 < k \<Longrightarrow> k < 100 \<Longrightarrow>
         tempFile_prefix t @ ''-'' @ to_wstring (int k) @ ext = dump_name t k"
proof -
  from assms have p: "tempFile_prefix t =
     ''ModOrganizer-'' @ four_digits (1900 + tm_year t) @ two_digits (tm_mon t + 1)
     @ two_digits (tm_mday t) @ ''T'' @ two_digits (tm_hour t) @ two_digits (tm_min t)
     @ two_digits (tm_sec t)"
    by (simp add: tempFile_prefix_def calendar_time_def setw_two_digits setw_four_digits)
  show "tempFile_prefix t @ ext = dump_name t 0"
    by (simp add: p dump_name_def ext_def)
  show "tempFile_prefix t @ ''-'' @ to_wstring (int k) @ ext = dump_name t k"
    if "0 < k" "k < 100"
  proof (cases "k < 10")
    case True
    then have "digits k = [''0123456789'' ! k]" by (rule digits_1)
    with that True show ?thesis
      by (simp add: p dump_name_def ext_def to_wstring_def digit_def)
  next
    case False
    with that have "digits k = [''0123456789'' ! (k div 10), ''0123456789'' ! (k mod 10)]"
      by (intro digits_2) simp_all
    moreover have "nat (int k div 10) = k div 10" "nat (int k mod 10) = k mod 10"
      by (simp_all add: nat_div_distrib nat_mod_distrib)
    ultimately show ?thesis using that False
      by (simp add: p dump_name_def ext_def to_wstring_def digit_def)
  qed
qed

subsection \<open>\<^verbatim>\<open>tempFile\<close>\<close>

lemma CreateFileW_step:
  assumes "call_CreateFileW os path s = (h, s1)"
  shows "calls s1 = calls s @ [CreateFileW_call path h]" and "wcerr s1 = wcerr s"
    and "wclog s1 = wclog s" and "h = CreateFileW os (calls s) path"
  using assms by (auto simp: call_CreateFileW_def Let_def)

lemma tempFile_ended_Cons:
  assumes "tempFile_ended os n s1 new h s' out" "wcerr s1 = wcerr s"
  shows "tempFile_ended os (Suc n) s
           (CreateFileW_call path INVALID_HANDLE_VALUE # GetLastError_call ERROR_FILE_EXISTS # new)
           h s' out"
  using assms by (cases out) (simp_all add: tempFile_ended_def)

lemma tempFile_loop_trace:
  "tempFile_loop os dir prefix i path s = (h, s') \<Longrightarrow> i \<le> tempFile_MaxTries \<Longrightarrow>
   \<exists>new out. calls s' = calls s @ new \<and> list_all allocator_call new
     \<and> length (tried new) \<le> tempFile_MaxTries - i
     \<and> (\<forall>k < length (tried new).
           tried new ! k = (if k = 0 then path else tempFile_path dir prefix (i + k)))
     \<and> tempFile_ended os (tempFile_MaxTries - i) s new h s' out"
proof (induction os dir prefix i path s arbitrary: h s' rule: tempFile_loop.induct)
  case (1 os dir prefix i path s)
  let ?n = "tempFile_MaxTries - i"
  show ?case
  proof (cases "i < tempFile_MaxTries")
    case False
    with "1.prems" have "h = HandlePtr_empty os" "s' = to_wcerr RanOutOfFilenames s" "?n = 0"
      by (subst (asm) tempFile_loop.simps, simp)+
    then have "calls s' = calls s @ [] \<and> list_all allocator_call []
      \<and> length (tried []) \<le> ?n
      \<and> (\<forall>k < length (tried []).
           tried [] ! k = (if k = 0 then path else tempFile_path dir prefix (i + k)))
      \<and> tempFile_ended os ?n s [] h s' Exhausted"
      by (simp add: tempFile_ended_def)
    then show ?thesis by blast
  next
    case True
    then have pos: "0 < ?n" by simp
    let ?s0 = "to_wclog (TryingFile path) s"
    obtain h1 s1 where c: "call_CreateFileW os path ?s0 = (h1, s1)" by (metis surj_pair)
    note cs = CreateFileW_step [OF c]
    show ?thesis
    proof (cases "h1 \<noteq> INVALID_HANDLE_VALUE")
      case created: True
      from "1.prems"(1) True c created have res: "h = h1" "s' = s1"
        by (subst (asm) tempFile_loop.simps, simp)+
      with cs created pos
      have "calls s' = calls s @ [CreateFileW_call path h1]
        \<and> list_all allocator_call [CreateFileW_call path h1]
        \<and> length (tried [CreateFileW_call path h1]) \<le> ?n
        \<and> (\<forall>k < length (tried [CreateFileW_call path h1]).
             tried [CreateFileW_call path h1] ! k
               = (if k = 0 then path else tempFile_path dir prefix (i + k)))
        \<and> tempFile_ended os ?n s [CreateFileW_call path h1] h s' Succeeded"
        by (simp add: tempFile_ended_def)
      then show ?thesis by blast
    next
      case failed: False
      then have h1: "h1 = INVALID_HANDLE_VALUE" by simp
      obtain e s2 where e: "call_GetLastError os s1 = (e, s2)" by (metis surj_pair)
      note es = GetLastError_step [OF e]
      show ?thesis
      proof (cases "e \<noteq> ERROR_FILE_EXISTS")
        case other: True
        from "1.prems"(1) True c failed e other
        have res: "h = HandlePtr_empty os" "s' = to_wcerr (FailedToCreateDumpFile e) s2"
          by (subst (asm) tempFile_loop.simps, simp)+
        let ?new = "[CreateFileW_call path h1, GetLastError_call e]"
        from res cs es other pos
        have "calls s' = calls s @ ?new \<and> list_all allocator_call ?new
          \<and> length (tried ?new) \<le> ?n
          \<and> (\<forall>k < length (tried ?new).
               tried ?new ! k = (if k = 0 then path else tempFile_path dir prefix (i + k)))
          \<and> tempFile_ended os ?n s ?new h s' HardFailed"
          by (simp add: tempFile_ended_def)
        then show ?thesis by blast
      next
        case exists: False
        then have e80: "e = ERROR_FILE_EXISTS" by simp
        let ?path' = "dir @ backslash @ prefix @ ''-'' @ to_wstring (int (i + 1)) @ ext"
        from "1.prems"(1) True c failed e exists
        have rec: "tempFile_loop os dir prefix (i + 1) ?path' s2 = (h, s')"
          by (subst (asm) tempFile_loop.simps) simp
        have le: "i + 1 \<le> tempFile_MaxTries" using True by simp
        have nn: "\<not> h1 \<noteq> INVALID_HANDLE_VALUE" using failed by simp
        have ne: "\<not> e \<noteq> ERROR_FILE_EXISTS" using exists by simp
        from "1.IH" [OF True refl refl c [symmetric] nn refl e [symmetric] ne rec le]
        obtain new out where new: "calls s' = calls s2 @ new" "list_all allocator_call new"
          "length (tried new) \<le> tempFile_MaxTries - (i + 1)"
          "\<forall>k < length (tried new).
             tried new ! k = (if k = 0 then ?path' else tempFile_path dir prefix (i + 1 + k))"
          "tempFile_ended os (tempFile_MaxTries - (i + 1)) s2 new h s' out"
          by blast
        let ?new = "CreateFileW_call path INVALID_HANDLE_VALUE
                    # GetLastError_call ERROR_FILE_EXISTS # new"
        have suc: "Suc (tempFile_MaxTries - (i + 1)) = ?n" using True by simp
        have w: "wcerr s2 = wcerr s" using cs es by simp
        have paths: "tried ?new ! k = (if k = 0 then path else tempFile_path dir prefix (i + k))"
          if "k < length (tried ?new)" for k
        proof (cases k)
          case 0
          then show ?thesis by simp
        next
          case (Suc k')
          with that have "k' < length (tried new)" by simp
          with new(4) have "tried new ! k'
              = (if k' = 0 then ?path' else tempFile_path dir prefix (i + 1 + k'))" by blast
          then have "tried new ! k' = tempFile_path dir prefix (i + 1 + k')"
            by (simp add: tempFile_path_def)
          with Suc show ?thesis by simp
        qed
        have "calls s' = calls s @ ?new" "list_all allocator_call ?new"
          "length (tried ?new) \<le> ?n"
          using new(1-3) cs es h1 e80 suc by simp_all
        moreover have "tempFile_ended os ?n s ?new h s' out"
          using tempFile_ended_Cons [OF new(5) w] suc by simp
        ultimately show ?thesis using paths by blast
      qed
    qed
  qed
qed

lemma tempFile_trace:
  assumes "tempFile os dir s = (h, s')"
  shows "\<exists>new out. calls s' = calls s @ new \<and> list_all allocator_call new
     \<and> length (tried new) \<le> tempFile_MaxTries
     \<and> (\<forall>k < length (tried new).
           tried new ! k = tempFile_path dir (tempFile_prefix (gmtime_now os (calls s))) k)
     \<and> tempFile_ended os tempFile_MaxTries s new h s' out"
proof -
  let ?t = "gmtime_now os (calls s)"
  let ?s1 = "record_call (gmtime_call ?t) s"
  let ?prefix = "tempFile_prefix ?t"
  from assms have "tempFile_loop os dir ?prefix 0 (dir @ backslash @ ?prefix @ ext) ?s1 = (h, s')"
    by (simp add: tempFile_def call_gmtime_def Let_def)
  from tempFile_loop_trace [OF this] obtain new out where new:
    "calls s' = calls ?s1 @ new" "list_all allocator_call new"
    "length (tried new) \<le> tempFile_MaxTries"
    "\<forall>k < length (tried new).
        tried new ! k = (if k = 0 then dir @ backslash @ ?prefix @ ext
                         else tempFile_path dir ?prefix (0 + k))"
    "tempFile_ended os (tempFile_MaxTries - 0) ?s1 new h s' out"
    by auto
  let ?new = "gmtime_call ?t # new"
  have e: "tempFile_ended os tempFile_MaxTries s ?new h s' out"
    using new(5) by (cases out) (simp_all add: tempFile_ended_def)
  have p: "\<forall>k < length (tried ?new). tried ?new ! k = tempFile_path dir ?prefix k"
    using new(4) by (simp add: tempFile_path_def)
  have "calls s' = calls s @ ?new" "list_all allocator_call ?new"
    "length (tried ?new) \<le> tempFile_MaxTries"
    using new(1-3) by simp_all
  with e p show ?thesis by blast
qed

lemma tempFile_handle:
  "fst (tempFile os dir s) \<noteq> INVALID_HANDLE_VALUE \<or> fst (tempFile os dir s) = HandlePtr_empty os"
proof -
  obtain h s' where t: "tempFile os dir s = (h, s')" by (metis surj_pair)
  from tempFile_trace [OF t] obtain new out where "tempFile_ended os tempFile_MaxTries s new h s' out"
    by blast
  then have "h \<noteq> INVALID_HANDLE_VALUE \<or> h = HandlePtr_empty os"
    by (cases out) (simp_all add: tempFile_ended_def)
  with t show ?thesis by simp
qed

text \<open>
  When an empty \<^verbatim>\<open>HandlePtr\<close> does not hold \<^verbatim>\<open>INVALID_HANDLE_VALUE\<close>, the test of line
  383 never fails, and \<^verbatim>\<open>dumpFile\<close> is \<^verbatim>\<open>tempFile\<close> in the current directory.
\<close>

lemma dumpFile_current_directory_only:
  assumes "HandlePtr_empty os \<noteq> INVALID_HANDLE_VALUE"
  shows "dumpFile os s = tempFile os ''.'' s"
proof -
  obtain h s' where t: "tempFile os ''.'' s = (h, s')" by (metis surj_pair)
  with tempFile_handle [of os "''.''" s] assms have "h \<noteq> INVALID_HANDLE_VALUE" by auto
  with t show ?thesis by (simp add: dumpFile_def)
qed

lemma tempDir_trace:
  assumes "tempDir os s = (dir, s')"
  shows "\<exists>new. calls s' = calls s @ new \<and> list_all allocator_call new"
proof -
  obtain written chars s1 where g: "call_GetTempPathW os (MAX_PATH + 1) s = ((written, chars), s1)"
    by (metis surj_pair)
  then have c: "calls s1 = calls s @ [GetTempPathW_call (MAX_PATH + 1) written]"
    by (auto simp: call_GetTempPathW_def split: prod.splits)
  show ?thesis
  proof (cases "written = 0")
    case True
    obtain e s2 where e: "call_GetLastError os s1 = (e, s2)" by (metis surj_pair)
    from assms g True e have "s' = to_wcerr (FailedToGetTempPath e) s2"
      by (simp add: tempDir_def Let_def)
    with c GetLastError_step(1) [OF e]
    have "calls s' = calls s @ [GetTempPathW_call (MAX_PATH + 1) written, GetLastError_call e]
      \<and> list_all allocator_call [GetTempPathW_call (MAX_PATH + 1) written, GetLastError_call e]"
      by simp
    then show ?thesis by blast
  next
    case False
    with assms g have "s' = s1" by (simp add: tempDir_def Let_def)
    with c have "calls s' = calls s @ [GetTempPathW_call (MAX_PATH + 1) written]
      \<and> list_all allocator_call [GetTempPathW_call (MAX_PATH + 1) written]" by simp
    then show ?thesis by blast
  qed
qed

lemma tempFile_calls:
  assumes "tempFile os dir s = (h, s')"
  shows "\<exists>new. calls s' = calls s @ new \<and> list_all allocator_call new"
  using tempFile_trace [OF assms] by blast

lemma dumpFile_trace:
  assumes "dumpFile os s = (h, s')"
  shows "\<exists>new. calls s' = calls s @ new \<and> list_all allocator_call new"
proof -
  obtain h1 s1 where t1: "tempFile os ''.'' s = (h1, s1)" by (metis surj_pair)
  from tempFile_calls [OF t1] obtain new1 where new1:
    "calls s1 = calls s @ new1" "list_all allocator_call new1" by blast
  show ?thesis
  proof (cases "h1 \<noteq> INVALID_HANDLE_VALUE")
    case True
    with assms t1 have "s' = s1" by (simp add: dumpFile_def)
    with new1 show ?thesis by blast
  next
    case False
    let ?s2 = "to_wclog CannotWriteDumpFileInCurrentDirectory s1"
    obtain dir s3 where d: "tempDir os ?s2 = (dir, s3)" by (metis surj_pair)
    from tempDir_trace [OF d] obtain new2 where new2:
      "calls s3 = calls s1 @ new2" "list_all allocator_call new2" by auto
    show ?thesis
    proof (cases "dir \<noteq> []")
      case True
      obtain h2 s4 where t2: "tempFile os (c_str dir) s3 = (h2, s4)" by (metis surj_pair)
      from tempFile_calls [OF t2] obtain new3 where new3:
        "calls s4 = calls s3 @ new3" "list_all allocator_call new3" by blast
      from assms t1 False d True t2 have "s' = s4"
        by (auto simp: dumpFile_def split: if_splits)
      with new1 new2 new3
      have "calls s' = calls s @ (new1 @ new2 @ new3) \<and> list_all allocator_call (new1 @ new2 @ new3)"
        by simp
      then show ?thesis by blast
    next
      case empty: False
      from assms t1 False d empty have "s' = s3" by (simp add: dumpFile_def)
      with new1 new2
      have "calls s' = calls s @ (new1 @ new2) \<and> list_all allocator_call (new1 @ new2)"
        by simp
      then show ?thesis by blast
    qed
  qed
qed

text \<open>
  C5. For a UTC calendar time with a year of four digits, the \<open>k\<close>-th path that
  \<^verbatim>\<open>tempFile\<close> tries in a directory, counted from 0, is the directory, a backslash and
  \<^verbatim>\<open>ModOrganizer-YYYYMMDDThhmmss.dmp\<close> with zero-padded fields, with \<^verbatim>\<open>-k\<close> before the
  extension from the second attempt on. It tries at most 100 paths. It goes on to the
  next path only after the error \<^verbatim>\<open>ERROR_FILE_EXISTS\<close>: either it returns the handle of
  the last path tried, or it reports another error for the last path tried and returns
  an empty handle, or all 100 paths exist already and it reports that it ran out of
  filenames and returns an empty handle.
\<close>

theorem tempFile_names:
  "calendar_time (gmtime_now os (calls s)) \<Longrightarrow>
   (let t = gmtime_now os (calls s);
        (h, s') = tempFile os dir s;
        new = new_calls s s';
        n = length (tried new)
    in tried new = map (\<lambda>k. dir @ backslash @ dump_name t k) [0..<n] \<and> n \<le> 100
       \<and> ((h \<noteq> INVALID_HANDLE_VALUE \<and> 1 \<le> n \<and> collisions new = n - 1
            \<and> wcerr s' = wcerr s)
          \<or> (h = HandlePtr_empty os \<and> 1 \<le> n \<and> collisions new = n - 1
              \<and> (\<exists>e. e \<noteq> ERROR_FILE_EXISTS \<and> wcerr s' = wcerr s @ [FailedToCreateDumpFile e]))
          \<or> (h = HandlePtr_empty os \<and> n = 100 \<and> collisions new = 100
              \<and> wcerr s' = wcerr s @ [RanOutOfFilenames])))"
proof -
  assume cal: "calendar_time (gmtime_now os (calls s))"
  let ?t = "gmtime_now os (calls s)"
  obtain h s' where t: "tempFile os dir s = (h, s')" by (metis surj_pair)
  from tempFile_trace [OF t] obtain new out where new:
    "calls s' = calls s @ new"
    "length (tried new) \<le> tempFile_MaxTries"
    "\<forall>k < length (tried new). tried new ! k = tempFile_path dir (tempFile_prefix ?t) k"
    "tempFile_ended os tempFile_MaxTries s new h s' out"
    by blast
  let ?n = "length (tried new)"
  have n: "new_calls s s' = new" using new(1) by simp
  have le: "?n \<le> 100" using new(2) by (simp add: tempFile_MaxTries_def)
  have path: "tempFile_path dir (tempFile_prefix ?t) k = dir @ backslash @ dump_name ?t k"
    if "k < ?n" for k
  proof (cases "k = 0")
    case True
    with tempFile_prefix_calendar(1) [OF cal] show ?thesis by (simp add: tempFile_path_def)
  next
    case False
    with that le tempFile_prefix_calendar(2) [OF cal, of k] show ?thesis
      by (simp add: tempFile_path_def)
  qed
  have names: "tried new = map (\<lambda>k. dir @ backslash @ dump_name ?t k) [0..<?n]"
    using new(3) path by (intro nth_equalityI) simp_all
  have ended: "(h \<noteq> INVALID_HANDLE_VALUE \<and> 1 \<le> ?n \<and> collisions new = ?n - 1
            \<and> wcerr s' = wcerr s)
          \<or> (h = HandlePtr_empty os \<and> 1 \<le> ?n \<and> collisions new = ?n - 1
              \<and> (\<exists>e. e \<noteq> ERROR_FILE_EXISTS \<and> wcerr s' = wcerr s @ [FailedToCreateDumpFile e]))
          \<or> (h = HandlePtr_empty os \<and> ?n = 100 \<and> collisions new = 100
              \<and> wcerr s' = wcerr s @ [RanOutOfFilenames])"
    using new(4) by (cases out) (auto simp: tempFile_ended_def tempFile_MaxTries_def)
  from names le ended show ?thesis by (simp add: t n Let_def)
qed

lemma calendar_time_noon: "calendar_time noon"
  by (simp add: calendar_time_def noon_def)

lemma tempFile_once_existing:
  "tried (calls (snd (tempFile
      (files_os [''.'' @ backslash @ ''ModOrganizer-20240115T120000.dmp'']) ''.'' s0)))
    = [''.'' @ backslash @ ''ModOrganizer-20240115T120000.dmp'',
       ''.'' @ backslash @ ''ModOrganizer-20240115T120000-1.dmp'']"
  by code_simp

lemma dump_name_noon:
  "dump_name noon 0 = ''ModOrganizer-20240115T120000.dmp''"
  "dump_name noon 1 = ''ModOrganizer-20240115T120000-1.dmp''"
  "dump_name noon 99 = ''ModOrganizer-20240115T120000-99.dmp''"
  by (simp_all add: dump_name_def noon_def four_digits_def two_digits_def digit_def)

theorem tempFile_names_witness:
  "calendar_time (gmtime_now colliding_os (calls s0))
   \<and> (let t = gmtime_now colliding_os (calls s0);
          (h, s') = tempFile colliding_os ''.'' s0;
          new = new_calls s0 s';
          n = length (tried new)
      in tried new = map (\<lambda>k. ''.'' @ backslash @ dump_name t k) [0..<n] \<and> n \<le> 100
         \<and> ((h \<noteq> INVALID_HANDLE_VALUE \<and> 1 \<le> n \<and> collisions new = n - 1
              \<and> wcerr s' = wcerr s0)
            \<or> (h = HandlePtr_empty colliding_os \<and> 1 \<le> n \<and> collisions new = n - 1
                \<and> (\<exists>e. e \<noteq> ERROR_FILE_EXISTS
                       \<and> wcerr s' = wcerr s0 @ [FailedToCreateDumpFile e]))
            \<or> (h = HandlePtr_empty colliding_os \<and> n = 100 \<and> collisions new = 100
                \<and> wcerr s' = wcerr s0 @ [RanOutOfFilenames])))
   \<and> dump_name noon 0 = ''ModOrganizer-20240115T120000.dmp''
   \<and> dump_name noon 1 = ''ModOrganizer-20240115T120000-1.dmp''
   \<and> tried (calls (snd (tempFile
        (files_os [''.'' @ backslash @ ''ModOrganizer-20240115T120000.dmp'']) ''.'' s0)))
      = [''.'' @ backslash @ ''ModOrganizer-20240115T120000.dmp'',
         ''.'' @ backslash @ ''ModOrganizer-20240115T120000-1.dmp'']"
proof -
  have c: "calendar_time (gmtime_now colliding_os (calls s0))"
    by (simp add: colliding_os_def refusing_os_def calendar_time_noon)
  from c tempFile_names [OF c, of "''.''"] dump_name_noon(1,2) tempFile_once_existing
  show ?thesis by blast
qed

text \<open>
  C1 fails on the code. With an empty \<^verbatim>\<open>HandlePtr\<close> holding the null handle, a current
  directory that refuses the file with \<^verbatim>\<open>ERROR_ACCESS_DENIED\<close> and a temporary
  directory that would take it: \<^verbatim>\<open>dumpFile\<close> does what \<^verbatim>\<open>tempFile\<close> does in the
  current directory and no more; it returns the empty handle after the one attempt
  there, never asks for the temporary directory, and \<^verbatim>\<open>createMiniDump\<close> fails for want
  of a file.
\<close>

theorem dumpFile_fallback_not_taken:
  "dumpFile readonly_cwd_os s0 = tempFile readonly_cwd_os ''.'' s0
   \<and> fst (dumpFile readonly_cwd_os s0) = HandlePtr_empty readonly_cwd_os
   \<and> calls (snd (dumpFile readonly_cwd_os s0))
       = [gmtime_call noon,
          CreateFileW_call (''.'' @ backslash @ ''ModOrganizer-20240115T120000.dmp'')
            INVALID_HANDLE_VALUE,
          GetLastError_call ERROR_ACCESS_DENIED]
   \<and> fst (tempDir readonly_cwd_os s0) = ''C:'' @ backslash @ ''Temp'' @ backslash
   \<and> fst (tempFile readonly_cwd_os (c_str (fst (tempDir readonly_cwd_os s0))) s0) = 0x2C
   \<and> \<not> fst (createMiniDump readonly_cwd_os 0x104 Mini s0)
   \<and> wcerr (snd (createMiniDump readonly_cwd_os 0x104 Mini s0))
       = [FailedToCreateDumpFile ERROR_ACCESS_DENIED, NowhereToWriteTheDumpFile]"
proof -
  have "HandlePtr_empty readonly_cwd_os \<noteq> INVALID_HANDLE_VALUE"
    by (simp add: readonly_cwd_os_def refusing_os_def INVALID_HANDLE_VALUE_def)
  then have same: "dumpFile readonly_cwd_os s0 = tempFile readonly_cwd_os ''.'' s0"
    by (rule dumpFile_current_directory_only)
  have "fst (tempFile readonly_cwd_os ''.'' s0) = HandlePtr_empty readonly_cwd_os"
    by code_simp
  moreover have "calls (snd (tempFile readonly_cwd_os ''.'' s0))
       = [gmtime_call noon,
          CreateFileW_call (''.'' @ backslash @ ''ModOrganizer-20240115T120000.dmp'')
            INVALID_HANDLE_VALUE,
          GetLastError_call ERROR_ACCESS_DENIED]"
    by code_simp
  moreover have "fst (tempDir readonly_cwd_os s0) = ''C:'' @ backslash @ ''Temp'' @ backslash"
    by code_simp
  moreover have "fst (tempFile readonly_cwd_os (c_str (fst (tempDir readonly_cwd_os s0))) s0) = 0x2C"
    by code_simp
  moreover have "\<not> fst (createMiniDump readonly_cwd_os 0x104 Mini s0)"
    by code_simp
  moreover have "wcerr (snd (createMiniDump readonly_cwd_os 0x104 Mini s0))
       = [FailedToCreateDumpFile ERROR_ACCESS_DENIED, NowhereToWriteTheDumpFile]"
    by code_simp
  ultimately show ?thesis using same by simp
qed

subsection \<open>\<^verbatim>\<open>createMiniDump\<close> and \<^verbatim>\<open>coredumpOther\<close>\<close>

lemma allocator_call_flags: "list_all allocator_call cs \<Longrightarrow> snapshot_flags cs = []"
proof (induction cs)
  case Nil
  show ?case by simp
next
  case (Cons c cs)
  then show ?case by (cases c) simp_all
qed

lemma locator_call_no_capture:
  "list_all locator_call cs \<Longrightarrow> tried cs = [] \<and> snapshot_flags cs = []"
proof (induction cs)
  case Nil
  show ?case by simp
next
  case (Cons c cs)
  then show ?case by (cases c) simp_all
qed

lemma createMiniDump_snapshot:
  assumes "createMiniDump os process type s = (ok, s')"
  shows "snapshot_flags (new_calls s s')
     = (if fst (dumpFile os (snd (call_GetProcessId os process s))) = HandlePtr_empty os then []
        else [fst (createMiniDump_flags type)])"
proof -
  let ?p = "GetProcessId os (calls s) process"
  let ?s1 = "record_call (GetProcessId_call process ?p) s"
  have g: "call_GetProcessId os process s = (?p, ?s1)"
    by (simp add: call_GetProcessId_def Let_def)
  obtain dump_file s2 where d: "dumpFile os ?s1 = (dump_file, s2)" by (metis surj_pair)
  from dumpFile_trace [OF d] obtain alloc where alloc:
    "calls s2 = calls ?s1 @ alloc" "list_all allocator_call alloc" by blast
  note af = allocator_call_flags [OF alloc(2)]
  show ?thesis
  proof (cases "dump_file = HandlePtr_empty os")
    case True
    with assms g d have "s' = to_wcerr NowhereToWriteTheDumpFile s2"
      by (simp add: createMiniDump_def)
    with alloc(1) have "calls s' = calls s @ (GetProcessId_call process ?p # alloc)" by simp
    then have "new_calls s s' = GetProcessId_call process ?p # alloc" by simp
    with af True g d show ?thesis by simp
  next
    case False
    obtain flags line where f: "createMiniDump_flags type = (flags, line)" by (metis surj_pair)
    let ?s3 = "to_wclog line s2"
    let ?ret = "MiniDumpWriteDump os (calls ?s3) process ?p dump_file flags"
    let ?c = "MiniDumpWriteDump_call process ?p dump_file flags ?ret"
    let ?s4 = "record_call ?c ?s3"
    have m: "call_MiniDumpWriteDump os process ?p dump_file flags ?s3 = (?ret, ?s4)"
      by (simp add: call_MiniDumpWriteDump_def Let_def)
    show ?thesis
    proof (cases ?ret)
      case True
      with assms g d False f m have "s' = to_wclog MinidumpWrittenCorrectly ?s4"
        by (simp add: createMiniDump_def)
      with alloc(1) have "calls s' = calls s @ (GetProcessId_call process ?p # alloc @ [?c])"
        by simp
      then have "new_calls s s' = GetProcessId_call process ?p # alloc @ [?c]" by simp
      with af False g d f show ?thesis by simp
    next
      case failed: False
      obtain e s5 where e: "call_GetLastError os ?s4 = (e, s5)" by (metis surj_pair)
      from assms g d False f m failed e have "s' = to_wcerr (FailedToWriteMiniDump e) s5"
        by (simp add: createMiniDump_def)
      with alloc(1) GetLastError_step(1) [OF e]
      have "calls s' = calls s @ (GetProcessId_call process ?p # alloc @ [?c, GetLastError_call e])"
        by simp
      then have "new_calls s s' = GetProcessId_call process ?p # alloc @ [?c, GetLastError_call e]"
        by simp
      with af False g d f show ?thesis by simp
    qed
  qed
qed

text \<open>
  C6. When a dump file could be allocated, \<^verbatim>\<open>createMiniDump\<close> calls
  \<^verbatim>\<open>MiniDumpWriteDump\<close> exactly once, with the baseline flags (normal content, handle
  data, unloaded modules, thread data) for \<^verbatim>\<open>Mini\<close>, with the baseline and the data
  segments for \<^verbatim>\<open>Data\<close>, and with the baseline and the full memory for \<^verbatim>\<open>Full\<close>; it
  does not call it otherwise. The three flag sets are 0x124, 0x125 and 0x126.
\<close>

theorem createMiniDump_flag_sets:
  "(let s1 = snd (call_GetProcessId os process s);
        file = fst (dumpFile os s1);
        s' = snd (createMiniDump os process type s)
    in snapshot_flags (new_calls s s')
       = (if file = HandlePtr_empty os then []
          else [case type of
                  Mini \<Rightarrow> MiniDumpNormal OR MiniDumpWithHandleData
                          OR MiniDumpWithUnloadedModules OR MiniDumpWithProcessThreadData
                | Data \<Rightarrow> MiniDumpNormal OR MiniDumpWithHandleData
                          OR MiniDumpWithUnloadedModules OR MiniDumpWithProcessThreadData
                          OR MiniDumpWithDataSegs
                | Full \<Rightarrow> MiniDumpNormal OR MiniDumpWithHandleData
                          OR MiniDumpWithUnloadedModules OR MiniDumpWithProcessThreadData
                          OR MiniDumpWithFullMemory]))
   \<and> MiniDumpNormal OR MiniDumpWithHandleData
       OR MiniDumpWithUnloadedModules OR MiniDumpWithProcessThreadData = 0x124
   \<and> MiniDumpNormal OR MiniDumpWithHandleData
       OR MiniDumpWithUnloadedModules OR MiniDumpWithProcessThreadData
       OR MiniDumpWithDataSegs = 0x125
   \<and> MiniDumpNormal OR MiniDumpWithHandleData
       OR MiniDumpWithUnloadedModules OR MiniDumpWithProcessThreadData
       OR MiniDumpWithFullMemory = 0x126"
proof -
  obtain ok s' where c: "createMiniDump os process type s = (ok, s')" by (metis surj_pair)
  have tbl: "fst (createMiniDump_flags type) =
    (case type of
       Mini \<Rightarrow> MiniDumpNormal OR MiniDumpWithHandleData
               OR MiniDumpWithUnloadedModules OR MiniDumpWithProcessThreadData
     | Data \<Rightarrow> MiniDumpNormal OR MiniDumpWithHandleData
               OR MiniDumpWithUnloadedModules OR MiniDumpWithProcessThreadData
               OR MiniDumpWithDataSegs
     | Full \<Rightarrow> MiniDumpNormal OR MiniDumpWithHandleData
               OR MiniDumpWithUnloadedModules OR MiniDumpWithProcessThreadData
               OR MiniDumpWithFullMemory)"
    by (cases type) (simp_all add: createMiniDump_flags_def Let_def or.assoc)
  have vals: "MiniDumpNormal OR MiniDumpWithHandleData
       OR MiniDumpWithUnloadedModules OR MiniDumpWithProcessThreadData = 0x124"
    "MiniDumpNormal OR MiniDumpWithHandleData
       OR MiniDumpWithUnloadedModules OR MiniDumpWithProcessThreadData
       OR MiniDumpWithDataSegs = 0x125"
    "MiniDumpNormal OR MiniDumpWithHandleData
       OR MiniDumpWithUnloadedModules OR MiniDumpWithProcessThreadData
       OR MiniDumpWithFullMemory = 0x126"
    by (simp_all add: MiniDumpNormal_def MiniDumpWithHandleData_def
          MiniDumpWithUnloadedModules_def MiniDumpWithProcessThreadData_def
          MiniDumpWithDataSegs_def MiniDumpWithFullMemory_def)
  from createMiniDump_snapshot [OF c] tbl vals show ?thesis
    by (simp add: c Let_def)
qed

theorem createMiniDump_flag_sets_witness:
  "snapshot_flags (new_calls s0 (snd (createMiniDump sibling_os 0x108 Mini s0))) = [0x124]
   \<and> snapshot_flags (new_calls s0 (snd (createMiniDump sibling_os 0x108 Data s0))) = [0x125]
   \<and> snapshot_flags (new_calls s0 (snd (createMiniDump sibling_os 0x108 Full s0))) = [0x126]
   \<and> snapshot_flags (new_calls s0 (snd (createMiniDump refusing_os 0x108 Full s0))) = []"
proof -
  have a: "fst (dumpFile sibling_os (snd (call_GetProcessId sibling_os 0x108 s0)))
           \<noteq> HandlePtr_empty sibling_os"
    by code_simp
  have b: "fst (dumpFile refusing_os (snd (call_GetProcessId refusing_os 0x108 s0)))
           = HandlePtr_empty refusing_os"
    by code_simp
  from a b createMiniDump_flag_sets [of sibling_os "0x108" s0 Mini]
    createMiniDump_flag_sets [of sibling_os "0x108" s0 Data]
    createMiniDump_flag_sets [of sibling_os "0x108" s0 Full]
    createMiniDump_flag_sets [of refusing_os "0x108" s0 Full]
  show ?thesis by (simp add: Let_def)
qed

text \<open>
  C9. \<^verbatim>\<open>coredumpOther\<close> runs \<^verbatim>\<open>findOtherPid\<close> first. When that returns 0, or when
  \<^verbatim>\<open>OpenProcess\<close> returns no handle for the process id found, it returns false having
  made only calls of the Sibling Locator and the failed \<^verbatim>\<open>OpenProcess\<close>: no file was
  created and no dump was written. Otherwise it is \<^verbatim>\<open>createMiniDump\<close> on the handle
  opened, the routine that \<^verbatim>\<open>coredump\<close> runs on the handle of the current process.
\<close>

theorem coredumpOther_guards:
  "(let s0 = to_wclog CreatingMinidumpForARunningProcess s;
        (p, s1) = findOtherPid os s0;
        s2 = to_wclog (FoundOtherProcessWithPid p) s1;
        handle = OpenProcess os (calls s2) p;
        (ok, s') = coredumpOther os type s
    in if p = 0 \<or> handle = HandlePtr_empty os
       then \<not> ok \<and> list_all locator_call (new_calls s s')
            \<and> tried (new_calls s s') = [] \<and> snapshot_flags (new_calls s s') = []
       else (ok, s') = createMiniDump os handle type (record_call (OpenProcess_call p handle) s2))
   \<and> coredump os type s
       = createMiniDump os (GetCurrentProcess os (calls s)) type
           (record_call (GetCurrentProcess_call (GetCurrentProcess os (calls s)))
              (to_wclog CreatingMinidumpForTheCurrentProcess s))"
proof -
  let ?s0 = "to_wclog CreatingMinidumpForARunningProcess s"
  obtain p s1 where f: "findOtherPid os ?s0 = (p, s1)" by (metis surj_pair)
  from findOtherPid_trace [OF f] obtain new where new:
    "calls s1 = calls s @ new" "list_all locator_call new" by auto
  let ?s2 = "to_wclog (FoundOtherProcessWithPid p) s1"
  let ?handle = "OpenProcess os (calls ?s2) p"
  let ?s3 = "record_call (OpenProcess_call p ?handle) ?s2"
  obtain ok s' where c: "coredumpOther os type s = (ok, s')" by (metis surj_pair)
  have o: "call_OpenProcess os p ?s2 = (?handle, ?s3)"
    by (simp add: call_OpenProcess_def Let_def)
  have first: "if p = 0 \<or> ?handle = HandlePtr_empty os
       then \<not> ok \<and> list_all locator_call (new_calls s s')
            \<and> tried (new_calls s s') = [] \<and> snapshot_flags (new_calls s s') = []
       else (ok, s') = createMiniDump os ?handle type ?s3"
  proof (cases "p = 0")
    case True
    with c f have res: "\<not> ok" "s' = to_wcerr NoOtherProcessFound s1"
      by (simp_all add: coredumpOther_def)
    with new(1) have "new_calls s s' = new" by simp
    with res(1) True new(2) locator_call_no_capture [OF new(2)] show ?thesis by simp
  next
    case False
    show ?thesis
    proof (cases "?handle = HandlePtr_empty os")
      case True
      obtain e s4 where e: "call_GetLastError os ?s3 = (e, s4)" by (metis surj_pair)
      from c f False o True e have res: "\<not> ok" "s' = to_wcerr (FailedToOpenProcess p e) s4"
        by (simp_all add: coredumpOther_def)
      let ?new = "new @ [OpenProcess_call p ?handle, GetLastError_call e]"
      from res(2) new(1) GetLastError_step(1) [OF e] have "calls s' = calls s @ ?new" by simp
      then have n: "new_calls s s' = ?new" by simp
      have l: "list_all locator_call ?new" using new(2) False by simp
      from res(1) True n l locator_call_no_capture [OF l] show ?thesis by simp
    next
      case opened: False
      with c f False o have "(ok, s') = createMiniDump os ?handle type ?s3"
        by (simp add: coredumpOther_def)
      with False opened show ?thesis by simp
    qed
  qed
  have second: "coredump os type s
       = createMiniDump os (GetCurrentProcess os (calls s)) type
           (record_call (GetCurrentProcess_call (GetCurrentProcess os (calls s)))
              (to_wclog CreatingMinidumpForTheCurrentProcess s))"
    by (simp add: coredump_def call_GetCurrentProcess_def Let_def)
  from first second show ?thesis by (simp add: f c Let_def)
qed

theorem coredumpOther_guards_witness:
  "\<not> fst (coredumpOther refusing_os Full s0)
   \<and> list_all locator_call (new_calls s0 (snd (coredumpOther refusing_os Full s0)))
   \<and> tried (new_calls s0 (snd (coredumpOther refusing_os Full s0))) = []
   \<and> snapshot_flags (new_calls s0 (snd (coredumpOther refusing_os Full s0))) = []
   \<and> fst (coredumpOther sibling_os Full s0)
   \<and> snapshot_flags (new_calls s0 (snd (coredumpOther sibling_os Full s0))) = [0x126]"
proof -
  have p: "fst (findOtherPid refusing_os (to_wclog CreatingMinidumpForARunningProcess s0)) = 0"
    by code_simp
  have a: "fst (coredumpOther sibling_os Full s0)"
    by code_simp
  have b: "snapshot_flags (new_calls s0 (snd (coredumpOther sibling_os Full s0))) = [0x126]"
    by code_simp
  from p coredumpOther_guards [where os = refusing_os and s = s0 and type = Full]
  have "\<not> fst (coredumpOther refusing_os Full s0)
   \<and> list_all locator_call (new_calls s0 (snd (coredumpOther refusing_os Full s0)))
   \<and> tried (new_calls s0 (snd (coredumpOther refusing_os Full s0))) = []
   \<and> snapshot_flags (new_calls s0 (snd (coredumpOther refusing_os Full s0))) = []"
    by (simp add: Let_def split: prod.splits)
  with a b show ?thesis by blast
qed

end
